theory Spec2Isabelle
  imports Main
begin

section \<open>Key validation (dynet/io.cc, lines 14--26)\<close>

text \<open>
  Modelled from the spec: \<open>startswith\<close> is declared in dynet/str-util.h, which is not
  part of the sources at hand.  The specification says of a namespaced key that it
  ``must start with '/'\,''; \<open>startswith str pre\<close> holds when \<open>pre\<close> is an initial
  segment of \<open>str\<close>.
\<close>

definition startswith :: "string \<Rightarrow> string \<Rightarrow> bool" where
  "startswith str pre = (take (length pre) str = pre)"

text \<open>
  \<open>valid_key\<close>: the empty key is valid, the key \<open>/\<close> is not, and any other key is
  valid when \<open>std::find_if\<close> reaches the end without meeting a blank or a hash.
\<close>

definition valid_key :: "string \<Rightarrow> bool" where
  "valid_key s =
     (if length s = 0 then True
      else if s = ''/'' then False
      else find (\<lambda>ch. ch = CHR '' '' \<or> ch = CHR ''#'') s = None)"

definition valid_pc_key :: "string \<Rightarrow> bool" where
  "valid_pc_key s =
     (if length s = 0 then True
      else if \<not> startswith s ''/'' then False
      else valid_key s)"

section \<open>Key normalisation (lines 38--39 and 101--102)\<close>

text \<open>
  \<open>std::string::back\<close> reads the character at index \<open>size() - 1\<close>.  On the empty string
  there is no such character: the read is out of range, which the total embedding
  records as \<open>None\<close>.
\<close>

definition string_back :: "string \<Rightarrow> char option" where
  "string_back s = (if s = [] then None else Some (last s))"

text \<open>
  \<open>string key_ = key; if (key_.back() != '/') key_ += "/";\<close>
  The comparison is with the character read; where the read is out of range the model
  lets the comparison differ from \<open>/\<close>, so that the slash is appended.  Both callers
  use \<open>key_\<close> only when \<open>key\<close> is not empty.
\<close>

definition normalize_key :: "string \<Rightarrow> string" where
  "normalize_key key = (if string_back key \<noteq> Some CHR ''/'' then key @ ''/'' else key)"

section \<open>Text primitives of the C++ standard library\<close>

text \<open>
  The reader and the writer work on byte strings through \<open>std::getline\<close>, the formatted
  extraction \<open>>>\<close> and the formatted insertion \<open><<\<close>.  What the standard prescribes for
  them is written out here; the platform is taken to be LP64 (\<open>size_t\<close> and
  \<open>std::streamoff\<close> have 64 bits), and the locale the classic one.
\<close>

definition newline :: char where
  "newline = CHR 0x0A"

definition is_space :: "char \<Rightarrow> bool" where
  "is_space c =
     (c = CHR '' '' \<or> c = CHR 0x09 \<or> c = CHR 0x0A \<or> c = CHR 0x0B \<or> c = CHR 0x0C \<or> c = CHR 0x0D)"

definition is_digit :: "char \<Rightarrow> bool" where
  "is_digit c = (48 \<le> (of_char c :: nat) \<and> (of_char c :: nat) \<le> 57)"

definition digit_char :: "nat \<Rightarrow> char" where
  "digit_char d = char_of (48 + d)"

definition digit_value :: "char \<Rightarrow> nat" where
  "digit_value c = of_char c - 48"

text \<open>\<open>os << n\<close> for an unsigned integer: its decimal digits, no sign, no padding.\<close>

fun show_nat :: "nat \<Rightarrow> string" where
  "show_nat n =
     (if n < 10 then [digit_char n] else show_nat (n div 10) @ [digit_char (n mod 10)])"

declare show_nat.simps [simp del]

definition digits_value :: "string \<Rightarrow> nat" where
  "digits_value ds = foldl (\<lambda>a c. 10 * a + digit_value c) 0 ds"

definition size_t_range :: nat where
  "size_t_range = 2 ^ 64"

text \<open>
  An \<open>std::istringstream\<close> during one run of extractions: the characters not yet read,
  and whether \<open>failbit\<close> is set.  An extraction on a failed stream does nothing.
\<close>

type_synonym isstream = "string \<times> bool"

definition skipws :: "string \<Rightarrow> string" where
  "skipws s = dropWhile is_space s"

text \<open>
  \<open>iss >> str\<close> for a \<open>std::string\<close>: leading white space is skipped; when nothing is
  left the stream fails and the variable keeps its value; otherwise the variable
  receives the characters up to the next white space.
\<close>

definition extract_string :: "isstream \<Rightarrow> string \<Rightarrow> string \<times> isstream" where
  "extract_string iss old =
     (case iss of (s, failed) \<Rightarrow>
        if failed then (old, iss)
        else let s' = skipws s in
          if s' = [] then (old, ([], True))
          else (takeWhile (\<lambda>c. \<not> is_space c) s', (dropWhile (\<lambda>c. \<not> is_space c) s', False)))"

text \<open>
  \<open>iss >> n\<close> for a \<open>size_t\<close> (\<open>std::num_get\<close>, base ten): white space, an optional
  sign, then digits.  With no digit the stream fails and zero is stored; a value
  that does not fit is replaced by the largest one and the stream fails; a minus
  sign negates modulo \<open>2^64\<close>.  When the stream is exhausted before the extraction
  starts, the variable keeps its value.
\<close>

definition extract_size_t :: "isstream \<Rightarrow> nat \<Rightarrow> nat \<times> isstream" where
  "extract_size_t iss old =
     (case iss of (s, failed) \<Rightarrow>
        if failed then (old, iss)
        else let s' = skipws s in
          if s' = [] then (old, ([], True))
          else let neg = (hd s' = CHR ''-'');
                   s2 = (if hd s' = CHR ''-'' \<or> hd s' = CHR ''+'' then tl s' else s');
                   ds = takeWhile is_digit s2;
                   rest = dropWhile is_digit s2
               in if ds = [] then (0, (rest, True))
                  else if digits_value ds \<ge> size_t_range then (size_t_range - 1, (rest, True))
                  else if neg then ((size_t_range - digits_value ds) mod size_t_range, (rest, False))
                  else (digits_value ds, (rest, False)))"

section \<open>Shapes\<close>

text \<open>
  Modelled from the spec: \<open>Dim\<close> is declared in dynet/dim.h, which is not part of the
  sources at hand.  The specification describes a shape as ``an ordered sequence of
  positive integers describing a tensor's dimensions; total element count is the
  product of dimensions; equality is exact, dimension-wise'', and its text as
  ``dimension sizes in a fixed, parseable textual form (e.g. \<open>{d0,d1,...}\<close>)''.
\<close>

type_synonym dim = "nat list"

definition dim_size :: "dim \<Rightarrow> nat" where
  "dim_size d = prod_list d"

fun join :: "string \<Rightarrow> string list \<Rightarrow> string" where
  "join sep [] = []"
| "join sep [x] = x"
| "join sep (x # y # ys) = x @ sep @ join sep (y # ys)"

fun split_on :: "char \<Rightarrow> string \<Rightarrow> string list" where
  "split_on sep [] = [[]]"
| "split_on sep (c # cs) =
     (if c = sep then [] # split_on sep cs
      else (case split_on sep cs of [] \<Rightarrow> [[c]] | w # ws \<Rightarrow> (c # w) # ws))"

definition show_dim :: "dim \<Rightarrow> string" where
  "show_dim d = ''{'' @ join '','' (map show_nat d) @ ''}''"

text \<open>
  Reading a shape: an opening brace, the sizes separated by commas, a closing brace.
  The result is the shape and the characters after the closing brace.
\<close>

definition parse_dim :: "string \<Rightarrow> (dim \<times> string) option" where
  "parse_dim s =
     (case s of [] \<Rightarrow> None
      | c # t \<Rightarrow>
          if c \<noteq> CHR ''{'' then None
          else let body = takeWhile (\<lambda>x. x \<noteq> CHR ''}'') t;
                   rest = dropWhile (\<lambda>x. x \<noteq> CHR ''}'') t
               in if rest = [] then None
                  else if body = [] then Some ([], tl rest)
                  else let items = split_on CHR '','' body
                       in if list_all (\<lambda>w. w \<noteq> [] \<and> list_all is_digit w) items
                          then Some (map digits_value items, tl rest)
                          else None)"

text \<open>
  \<open>iss >> dim\<close>: as a formatted extraction it skips white space; when the text is not a
  shape the stream fails and the variable keeps its value.
\<close>

definition extract_dim :: "isstream \<Rightarrow> dim \<Rightarrow> dim \<times> isstream" where
  "extract_dim iss old =
     (case iss of (s, failed) \<Rightarrow>
        if failed then (old, iss)
        else (case parse_dim (skipws s) of
                None \<Rightarrow> (old, (skipws s, True))
              | Some (d, rest) \<Rightarrow> (d, (rest, False))))"

section \<open>The input file stream\<close>

text \<open>
  An \<open>std::ifstream\<close> on a file that opened: the bytes of the file, the read
  position, and the two state bits the loops depend on.
\<close>

record ifstream =
  content :: string
  gpos :: nat
  eofbit :: bool
  failbit :: bool

definition open_stream :: "string \<Rightarrow> ifstream" where
  "open_stream bytes = \<lparr>content = bytes, gpos = 0, eofbit = False, failbit = False\<rparr>"

text \<open>
  \<open>std::getline(datastream, line)\<close>.  On a stream that is not good nothing is read,
  \<open>failbit\<close> is set and the line keeps its value.  Otherwise the line is erased and
  receives the characters up to the next newline, which is consumed; at the end of
  the file \<open>eofbit\<close> is set, and \<open>failbit\<close> too when no character was extracted.  The
  Boolean is the value of the stream in a condition (\<open>!fail()\<close>).
\<close>

definition getline :: "ifstream \<Rightarrow> string \<Rightarrow> bool \<times> ifstream \<times> string" where
  "getline s line =
     (if eofbit s \<or> failbit s then (False, s\<lparr>failbit := True\<rparr>, line)
      else let rest = drop (gpos s) (content s) in
        if rest = [] then (False, s\<lparr>eofbit := True, failbit := True\<rparr>, [])
        else let l = takeWhile (\<lambda>c. c \<noteq> newline) rest in
          if length l < length rest then (True, s\<lparr>gpos := gpos s + length l + 1\<rparr>, l)
          else (True, s\<lparr>gpos := gpos s + length l, eofbit := True\<rparr>, l))"

text \<open>
  \<open>static_cast<size_t>(datastream.tellg())\<close>.  Since C++11 \<open>tellg\<close> builds a sentry: on
  a stream that is not good it sets \<open>failbit\<close> and returns \<open>-1\<close>, which the cast turns
  into \<open>2^64 - 1\<close>.
\<close>

definition tellg :: "ifstream \<Rightarrow> nat \<times> ifstream" where
  "tellg s =
     (if eofbit s \<or> failbit s then (size_t_range - 1, s\<lparr>failbit := True\<rparr>)
      else (gpos s mod size_t_range, s))"

text \<open>
  \<open>datastream.seekg(offset)\<close> with an absolute offset.  \<open>eofbit\<close> is cleared first; on a
  failed stream nothing else happens.  The offset becomes a signed \<open>streamoff\<close>: from
  \<open>2^63\<close> on it is negative and the seek fails.  A seek beyond the end of the file
  succeeds; the next read finds no byte there.
\<close>

definition seekg :: "ifstream \<Rightarrow> nat \<Rightarrow> ifstream" where
  "seekg s offset =
     (let s1 = s\<lparr>eofbit := False\<rparr> in
      if failbit s1 then s1
      else if offset < 2 ^ 63 then s1\<lparr>gpos := offset\<rparr>
      else s1\<lparr>failbit := True\<rparr>)"

section \<open>Parameters, lookup parameters and the collection\<close>

text \<open>
  Modelled from the spec: \<open>ParameterStorage\<close>, \<open>LookupParameterStorage\<close>,
  \<open>ParameterCollection\<close>, \<open>Tensor\<close>, \<open>as_vector\<close> and \<open>TensorTools::set_elements\<close> are
  declared in headers that are not part of the sources at hand.  The specification
  says: a Parameter is ``a named dense tensor with two co-located numeric arrays of
  equal shape: values and gradients''; a Lookup Parameter's ``shape is the per-row
  shape plus a [\dots] row-count dimension appended as the last declared dimension'',
  its ``values/gradients are the flattened concatenation of all rows''; a model is
  ``an ordered collection of Parameters and Lookup Parameters'' that reports its
  ``own namespace path''.  A tensor is the list of its elements, which is what
  \<open>as_vector\<close> returns.  The element type \<open>'a\<close> stands for \<open>float\<close>; its \<open>0\<close> is the value
  a \<open>std::vector<float>\<close> is filled with when it is created or enlarged.
\<close>

record 'a parameter_storage =
  p_name :: string
  p_dim :: dim
  p_values :: "'a list"
  p_g :: "'a list"

record 'a lookup_parameter_storage =
  lp_name :: string
  lp_dim :: dim
  lp_all_dim :: dim
  lp_all_values :: "'a list"
  lp_all_grads :: "'a list"

record 'a parameter_collection =
  fullname :: string
  params :: "'a parameter_storage list"
  lookup_params :: "'a lookup_parameter_storage list"

text \<open>
  Modelled from the spec: entities ``expose mutable values and gradients arrays
  supporting bulk element-wise overwrite from a flat numeric sequence of matching
  length''.  With matching lengths the result is the sequence; otherwise the model
  overwrites the elements both have and keeps the length of the array.
\<close>

definition set_elements :: "'a list \<Rightarrow> 'a list \<Rightarrow> 'a list" where
  "set_elements t vec = take (length t) (vec @ drop (length vec) t)"


definition add_lookup_parameters ::
  "'a::zero parameter_collection \<Rightarrow> nat \<Rightarrow> dim \<Rightarrow> 'a parameter_collection \<times> nat" where
  "add_lookup_parameters m n d =
     (m\<lparr>lookup_params := lookup_params m @
          [\<lparr>lp_name = [], lp_dim = d, lp_all_dim = d @ [n],
            lp_all_values = replicate (dim_size (d @ [n])) 0,
            lp_all_grads = replicate (dim_size (d @ [n])) 0\<rparr>]\<rparr>,
      length (lookup_params m))"

section \<open>Errors\<close>

text \<open>
  One constructor for each \<open>DYNET_INVALID_ARG\<close> and \<open>DYNET_RUNTIME_ERR\<close> of io.cc, with
  the data its message prints, and one for each exception or undefined operation of
  the library calls.
\<close>

datatype error =
    InvalidKey string
  | KeyRequired
  | SubstrOutOfRange
  | TooManyParams string
  | TooManyLookups string
  | ParamDimMismatch string dim dim
  | LookupDimMismatch string dim dim
  | BadSpecification string
  | CountMismatch nat nat nat nat
  | PopulateDimMismatch dim dim
  | KeyNotFound string
  | NoLastDim
  | VectorError string

section \<open>The vector codec\<close>

text \<open>
  The insertion and the extraction of a \<open>std::vector<float>\<close> (\<open>buffer << v\<close>,
  \<open>iss >> values\<close>) are templates of dynet/io.h, which is not part of the sources at
  hand, and they end in the conversion between \<open>float\<close> and decimal text.  Both are
  parameters of the model:
  \<^item> \<open>put v\<close> is the text \<open>buffer << v\<close> appends at precision \<open>FLOAT32_PRECISION\<close>;
  \<^item> \<open>get line values\<close> is the content of \<open>values\<close> after
    \<open>istringstream iss(line); iss >> values;\<close>, or the error the operator raises.
\<close>

type_synonym 'a put = "'a list \<Rightarrow> string"
type_synonym 'a get = "string \<Rightarrow> 'a list \<Rightarrow> error + 'a list"

section \<open>TextFileSaver (lines 34--86)\<close>

definition endl :: string where
  "endl = [newline]"

text \<open>\<open>save(const ParameterStorage &, key)\<close>: the bytes written to the data stream.\<close>

definition save_ps :: "'a put \<Rightarrow> 'a parameter_storage \<Rightarrow> string \<Rightarrow> string" where
  "save_ps put p key =
     (let buffer = put (p_values p) @ endl @ put (p_g p) @ endl
      in ''#Parameter# '' @ (if length key > 0 then key else p_name p) @ '' ''
         @ show_dim (p_dim p) @ '' '' @ show_nat (length buffer) @ endl @ buffer)"

text \<open>\<open>save(const LookupParameterStorage &, key)\<close>.\<close>

definition save_lps :: "'a put \<Rightarrow> 'a lookup_parameter_storage \<Rightarrow> string \<Rightarrow> string" where
  "save_lps put p key =
     (let buffer = put (lp_all_values p) @ endl @ put (lp_all_grads p) @ endl
      in ''#LookupParameter# '' @ (if length key > 0 then key else lp_name p) @ '' ''
         @ show_dim (lp_all_dim p) @ '' '' @ show_nat (length buffer) @ endl @ buffer)"

text \<open>\<open>s.substr(pos)\<close> throws \<open>std::out_of_range\<close> when \<open>pos\<close> exceeds the size.\<close>

definition substr_from :: "string \<Rightarrow> nat \<Rightarrow> error + string" where
  "substr_from s pos = (if pos > length s then Inl SubstrOutOfRange else Inr (drop pos s))"

text \<open>
  The two loops of lines 46--49.  An exception leaves in the file what was written
  before it: the error comes with those bytes.
\<close>

fun save_params_stripped ::
  "'a put \<Rightarrow> string \<Rightarrow> nat \<Rightarrow> 'a parameter_storage list \<Rightarrow> (error \<times> string) + string" where
  "save_params_stripped put key' strip_size [] = Inr []"
| "save_params_stripped put key' strip_size (p # ps) =
     (case substr_from (p_name p) strip_size of
        Inl e \<Rightarrow> Inl (e, [])
      | Inr suffix \<Rightarrow>
          (case save_params_stripped put key' strip_size ps of
             Inl (e, out) \<Rightarrow> Inl (e, save_ps put p (key' @ suffix) @ out)
           | Inr out \<Rightarrow> Inr (save_ps put p (key' @ suffix) @ out)))"

fun save_lookups_stripped ::
  "'a put \<Rightarrow> string \<Rightarrow> nat \<Rightarrow> 'a lookup_parameter_storage list \<Rightarrow> (error \<times> string) + string"
  where
  "save_lookups_stripped put key' strip_size [] = Inr []"
| "save_lookups_stripped put key' strip_size (p # ps) =
     (case substr_from (lp_name p) strip_size of
        Inl e \<Rightarrow> Inl (e, [])
      | Inr suffix \<Rightarrow>
          (case save_lookups_stripped put key' strip_size ps of
             Inl (e, out) \<Rightarrow> Inl (e, save_lps put p (key' @ suffix) @ out)
           | Inr out \<Rightarrow> Inr (save_lps put p (key' @ suffix) @ out)))"

text \<open>\<open>save(const ParameterCollection &, key)\<close>, lines 34--51.\<close>

definition save_pc ::
  "'a put \<Rightarrow> 'a parameter_collection \<Rightarrow> string \<Rightarrow> (error \<times> string) + string" where
  "save_pc put model key =
     (if \<not> valid_pc_key key then Inl (InvalidKey key, [])
      else let key' = normalize_key key in
        if length key = 0 then
          Inr (concat (map (\<lambda>p. save_ps put p key) (params model))
               @ concat (map (\<lambda>p. save_lps put p key) (lookup_params model)))
        else let strip_size = length (fullname model) in
          (case save_params_stripped put key' strip_size (params model) of
             Inl (e, out) \<Rightarrow> Inl (e, out)
           | Inr out1 \<Rightarrow>
               (case save_lookups_stripped put key' strip_size (lookup_params model) of
                  Inl (e, out2) \<Rightarrow> Inl (e, out1 @ out2)
                | Inr out2 \<Rightarrow> Inr (out1 @ out2))))"

text \<open>\<open>save(const Parameter &, key)\<close> and \<open>save(const LookupParameter &, key)\<close>, lines 53--65.\<close>

definition save_param :: "'a put \<Rightarrow> 'a parameter_storage \<Rightarrow> string \<Rightarrow> error + string" where
  "save_param put p key =
     (if \<not> valid_key key then Inl (InvalidKey key) else Inr (save_ps put p key))"

definition save_lookup_param ::
  "'a put \<Rightarrow> 'a lookup_parameter_storage \<Rightarrow> string \<Rightarrow> error + string" where
  "save_lookup_param put p key =
     (if \<not> valid_key key then Inl (InvalidKey key) else Inr (save_lps put p key))"

section \<open>TextFileLoader (lines 91--257)\<close>

subsection \<open>The variables of a scan\<close>

text \<open>
  Every reader declares \<open>datastream\<close>, \<open>line\<close>, \<open>type\<close>, \<open>name\<close>, \<open>dim\<close> and \<open>byte_count\<close>
  outside its loop, so that a variable an extraction leaves alone keeps the value
  of the iteration before.
\<close>

record scan_state =
  datastream :: ifstream
  cur_line :: string
  cur_type :: string
  cur_name :: string
  cur_dim :: dim
  byte_count :: nat

definition init_scan :: "string \<Rightarrow> scan_state" where
  "init_scan bytes =
     \<lparr>datastream = open_stream bytes, cur_line = [], cur_type = [], cur_name = [],
      cur_dim = [], byte_count = 0\<rparr>"

text \<open>\<open>{ istringstream iss(line); iss >> type >> name >> dim >> byte_count; }\<close>\<close>

definition read_header :: "'z scan_state_scheme \<Rightarrow> 'z scan_state_scheme" where
  "read_header st =
     (case extract_string (cur_line st, False) (cur_type st) of (ty, iss1) \<Rightarrow>
      case extract_string iss1 (cur_name st) of (nm, iss2) \<Rightarrow>
      case extract_dim iss2 (cur_dim st) of (dm, iss3) \<Rightarrow>
      case extract_size_t iss3 (byte_count st) of (bc, iss4) \<Rightarrow>
        st\<lparr>cur_type := ty, cur_name := nm, cur_dim := dm, byte_count := bc\<rparr>)"

text \<open>
  \<open>size_t offset = static_cast<size_t>(datastream.tellg()) + byte_count;
  datastream.seekg(offset);\<close>  The sum is taken modulo \<open>2^64\<close>.
\<close>

definition skip_payload :: "'z scan_state_scheme \<Rightarrow> 'z scan_state_scheme" where
  "skip_payload st =
     (case tellg (datastream st) of (p, ds1) \<Rightarrow>
        st\<lparr>datastream := seekg ds1 ((p + byte_count st) mod size_t_range)\<rparr>)"

subsection \<open>Populating a collection (lines 91--144)\<close>

record 'a populate_state = scan_state +
  values_buf :: "'a list"
  param_id :: nat
  lookup_id :: nat
  storage :: "'a parameter_collection"

text \<open>\<open>values.resize(n)\<close>: shortened, or extended with zeros.\<close>

definition resize :: "nat \<Rightarrow> 'a::zero list \<Rightarrow> 'a list" where
  "resize n v = take n v @ replicate (n - length v) 0"

text \<open>The pointers \<open>value_t\<close> and \<open>grad_t\<close> point into the entity chosen by the tag.\<close>

datatype target = ParamTarget nat | LookupTarget nat

definition set_values ::
  "target \<Rightarrow> 'a list \<Rightarrow> 'a parameter_collection \<Rightarrow> 'a parameter_collection" where
  "set_values t v m =
     (case t of
        ParamTarget i \<Rightarrow>
          m\<lparr>params := (params m)[i := (params m ! i)
               \<lparr>p_values := set_elements (p_values (params m ! i)) v\<rparr>]\<rparr>
      | LookupTarget j \<Rightarrow>
          m\<lparr>lookup_params := (lookup_params m)[j := (lookup_params m ! j)
               \<lparr>lp_all_values := set_elements (lp_all_values (lookup_params m ! j)) v\<rparr>]\<rparr>)"

definition set_grads ::
  "target \<Rightarrow> 'a list \<Rightarrow> 'a parameter_collection \<Rightarrow> 'a parameter_collection" where
  "set_grads t v m =
     (case t of
        ParamTarget i \<Rightarrow>
          m\<lparr>params := (params m)[i := (params m ! i)
               \<lparr>p_g := set_elements (p_g (params m ! i)) v\<rparr>]\<rparr>
      | LookupTarget j \<Rightarrow>
          m\<lparr>lookup_params := (lookup_params m)[j := (lookup_params m ! j)
               \<lparr>lp_all_grads := set_elements (lp_all_grads (lookup_params m ! j)) v\<rparr>]\<rparr>)"

text \<open>
  Lines 135--138.  The results of the two \<open>getline\<close> calls are not tested.  An error of
  the extraction operator comes with the state reached.
\<close>

definition read_payload ::
  "'a get \<Rightarrow> target \<Rightarrow> 'a populate_state \<Rightarrow> (error \<times> 'a populate_state) + 'a populate_state"
  where
  "read_payload get t st =
     (case getline (datastream st) (cur_line st) of (ok1, ds1, line1) \<Rightarrow>
      let st1 = st\<lparr>datastream := ds1, cur_line := line1\<rparr> in
      case get line1 (values_buf st1) of
        Inl e \<Rightarrow> Inl (e, st1)
      | Inr v1 \<Rightarrow>
          let st2 = st1\<lparr>values_buf := v1, storage := set_values t v1 (storage st1)\<rparr> in
          case getline (datastream st2) (cur_line st2) of (ok2, ds2, line2) \<Rightarrow>
          let st3 = st2\<lparr>datastream := ds2, cur_line := line2\<rparr> in
          case get line2 (values_buf st3) of
            Inl e \<Rightarrow> Inl (e, st3)
          | Inr v2 \<Rightarrow> Inr (st3\<lparr>values_buf := v2, storage := set_grads t v2 (storage st3)\<rparr>))"

text \<open>The body of the loop, lines 104--138, on the line just read.\<close>

definition populate_body ::
  "'a::zero get \<Rightarrow> string \<Rightarrow> string \<Rightarrow> 'a populate_state
     \<Rightarrow> (error \<times> 'a populate_state) + 'a populate_state" where
  "populate_body get key key' st0 =
     (let st = read_header st0 in
      if length key \<noteq> 0 \<and> take (length key') (cur_name st) \<noteq> key' then
        Inr (skip_payload st)
      else if cur_type st = ''#Parameter#'' then
        (let st1 = st\<lparr>values_buf := resize (dim_size (cur_dim st)) (values_buf st)\<rparr> in
         if param_id st1 \<ge> length (params (storage st1)) then
           Inl (TooManyParams (cur_name st1), st1)
         else
           let i = param_id st1; st2 = st1\<lparr>param_id := i + 1\<rparr> in
           if p_dim (params (storage st2) ! i) \<noteq> cur_dim st2 then
             Inl (ParamDimMismatch (cur_name st2) (cur_dim st2)
                    (p_dim (params (storage st2) ! i)), st2)
           else read_payload get (ParamTarget i) st2)
      else if cur_type st = ''#LookupParameter#'' then
        (let st1 = st\<lparr>values_buf := resize (dim_size (cur_dim st)) (values_buf st)\<rparr> in
         if lookup_id st1 \<ge> length (lookup_params (storage st1)) then
           Inl (TooManyLookups (cur_name st1), st1)
         else
           let j = lookup_id st1; st2 = st1\<lparr>lookup_id := j + 1\<rparr> in
           if lp_all_dim (lookup_params (storage st2) ! j) \<noteq> cur_dim st2 then
             Inl (LookupDimMismatch (cur_name st2) (cur_dim st2)
                    (lp_all_dim (lookup_params (storage st2) ! j)), st2)
           else read_payload get (LookupTarget j) st2)
      else Inl (BadSpecification (cur_line st), st))"

text \<open>
  The loop of line 103.  Nothing in the code bounds the number of iterations: a seek
  may move the position backwards.  \<open>None\<close> is a run that does not return.
\<close>

partial_function (option) populate_loop ::
  "'a::zero get \<Rightarrow> string \<Rightarrow> string \<Rightarrow> 'a populate_state
     \<Rightarrow> ((error \<times> 'a populate_state) + 'a populate_state) option" where
  "populate_loop get key key' st =
     (case getline (datastream st) (cur_line st) of (ok, ds1, line1) \<Rightarrow>
        if \<not> ok then Some (Inr (st\<lparr>datastream := ds1, cur_line := line1\<rparr>))
        else (case populate_body get key key' (st\<lparr>datastream := ds1, cur_line := line1\<rparr>) of
                Inl e \<Rightarrow> Some (Inl e)
              | Inr st' \<Rightarrow> populate_loop get key key' st'))"

declare populate_loop.simps [code]

definition init_populate :: "'a parameter_collection \<Rightarrow> string \<Rightarrow> 'a populate_state" where
  "init_populate model bytes =
     \<lparr>datastream = open_stream bytes, cur_line = [], cur_type = [], cur_name = [],
      cur_dim = [], byte_count = 0,
      values_buf = [], param_id = 0, lookup_id = 0, storage = model\<rparr>"

text \<open>
  \<open>populate(ParameterCollection &, key)\<close> on the bytes of the file.  An error comes
  with the state of the reader when it was raised, whose \<open>storage\<close> is the collection
  as the exception leaves it.
\<close>

definition populate_pc ::
  "'a::zero get \<Rightarrow> 'a parameter_collection \<Rightarrow> string \<Rightarrow> string
     \<Rightarrow> ((error \<times> 'a populate_state) + 'a parameter_collection) option" where
  "populate_pc get model key bytes =
     (let key' = normalize_key key in
      case populate_loop get key key' (init_populate model bytes) of
        None \<Rightarrow> None
      | Some (Inl e) \<Rightarrow> Some (Inl e)
      | Some (Inr st) \<Rightarrow>
          if param_id st \<noteq> length (params (storage st))
             \<or> lookup_id st \<noteq> length (lookup_params (storage st))
          then Some (Inl (CountMismatch (param_id st) (lookup_id st)
                            (length (params (storage st)))
                            (length (lookup_params (storage st))), st))
          else Some (Inr (storage st)))"

subsection \<open>Reading one entity by key (lines 146--257)\<close>

text \<open>
  The four readers run the same loop (lines 155--170, 183--198, 211--226 and
  239--255), which differs in the tag compared and in the statements run on a
  match.  \<open>scan_for\<close> is that loop; it stops on the first header whose type and name
  are the ones asked for, the stream standing after the header line, or when
  \<open>getline\<close> fails; the result carries the variables as the loop leaves them.
\<close>

datatype scan_result = Found scan_state | EndOfStream scan_state

partial_function (option) scan_for :: "string \<Rightarrow> string \<Rightarrow> scan_state \<Rightarrow> scan_result option"
  where
  "scan_for tag key st =
     (case getline (datastream st) (cur_line st) of (ok, ds1, line1) \<Rightarrow>
        if \<not> ok then Some (EndOfStream (st\<lparr>datastream := ds1, cur_line := line1\<rparr>))
        else let st1 = read_header (st\<lparr>datastream := ds1, cur_line := line1\<rparr>) in
          if cur_type st1 = tag \<and> cur_name st1 = key then Some (Found st1)
          else scan_for tag key (skip_payload st1))"

declare scan_for.simps [code]

text \<open>
  The statements of a match that read the two payload lines into \<open>values\<close>, which is
  created with \<open>dim.size()\<close> zeros.  The first vector is stored before the second line
  is read.
\<close>

datatype 'a payload = FirstFailed error | SecondFailed "'a list" error | Decoded "'a list" "'a list"

definition decode_payload :: "'a get \<Rightarrow> ifstream \<Rightarrow> string \<Rightarrow> 'a list \<Rightarrow> 'a payload" where
  "decode_payload get ds line vals =
     (case getline ds line of (ok1, ds1, line1) \<Rightarrow>
      case get line1 vals of
        Inl e \<Rightarrow> FirstFailed e
      | Inr v1 \<Rightarrow>
          (case getline ds1 line1 of (ok2, ds2, line2) \<Rightarrow>
           case get line2 v1 of
             Inl e \<Rightarrow> SecondFailed v1 e
           | Inr v2 \<Rightarrow> Decoded v1 v2))"

text \<open>\<open>populate(Parameter &, key)\<close>, lines 146--172.\<close>

definition populate_param ::
  "'a::zero get \<Rightarrow> 'a parameter_storage \<Rightarrow> string \<Rightarrow> string
     \<Rightarrow> ((error \<times> 'a parameter_storage) + 'a parameter_storage) option" where
  "populate_param get param key bytes =
     (if key = [] then Some (Inl (KeyRequired, param))
      else case scan_for ''#Parameter#'' key (init_scan bytes) of
        None \<Rightarrow> None
      | Some (EndOfStream st) \<Rightarrow> Some (Inl (KeyNotFound key, param))
      | Some (Found st) \<Rightarrow>
          if p_dim param \<noteq> cur_dim st then
            Some (Inl (PopulateDimMismatch (p_dim param) (cur_dim st), param))
          else
            (case decode_payload get (datastream st) (cur_line st)
                    (replicate (dim_size (cur_dim st)) 0) of
               FirstFailed e \<Rightarrow> Some (Inl (e, param))
             | SecondFailed v1 e \<Rightarrow>
                 Some (Inl (e, param\<lparr>p_values := set_elements (p_values param) v1\<rparr>))
             | Decoded v1 v2 \<Rightarrow>
                 Some (Inr (param\<lparr>p_values := set_elements (p_values param) v1,
                                  p_g := set_elements (p_g param) v2\<rparr>))))"

text \<open>\<open>populate(LookupParameter &, key)\<close>, lines 174--200.\<close>

definition populate_lookup_param ::
  "'a::zero get \<Rightarrow> 'a lookup_parameter_storage \<Rightarrow> string \<Rightarrow> string
     \<Rightarrow> ((error \<times> 'a lookup_parameter_storage) + 'a lookup_parameter_storage) option" where
  "populate_lookup_param get lookup_param key bytes =
     (if key = [] then Some (Inl (KeyRequired, lookup_param))
      else case scan_for ''#LookupParameter#'' key (init_scan bytes) of
        None \<Rightarrow> None
      | Some (EndOfStream st) \<Rightarrow> Some (Inl (KeyNotFound key, lookup_param))
      | Some (Found st) \<Rightarrow>
          if lp_all_dim lookup_param \<noteq> cur_dim st then
            Some (Inl (PopulateDimMismatch (lp_all_dim lookup_param) (cur_dim st), lookup_param))
          else
            (case decode_payload get (datastream st) (cur_line st)
                    (replicate (dim_size (cur_dim st)) 0) of
               FirstFailed e \<Rightarrow> Some (Inl (e, lookup_param))
             | SecondFailed v1 e \<Rightarrow>
                 Some (Inl (e, lookup_param
                   \<lparr>lp_all_values := set_elements (lp_all_values lookup_param) v1\<rparr>))
             | Decoded v1 v2 \<Rightarrow>
                 Some (Inr (lookup_param
                   \<lparr>lp_all_values := set_elements (lp_all_values lookup_param) v1,
                    lp_all_grads := set_elements (lp_all_grads lookup_param) v2\<rparr>))))"


text \<open>
  \<open>load_lookup_param\<close>, lines 230--257.  \<open>values\<close> is created from the shape as read;
  then \<open>size_t size = dim[dim.nd-1]; dim.nd--;\<close> splits the last extent off.  A shape
  with no extent has no last one.
\<close>

definition load_lookup_param ::
  "'a::zero get \<Rightarrow> 'a parameter_collection \<Rightarrow> string \<Rightarrow> string
     \<Rightarrow> ((error \<times> 'a parameter_collection) + 'a parameter_collection \<times> nat) option" where
  "load_lookup_param get model key bytes =
     (if key = [] then Some (Inl (KeyRequired, model))
      else case scan_for ''#LookupParameter#'' key (init_scan bytes) of
        None \<Rightarrow> None
      | Some (EndOfStream st) \<Rightarrow> Some (Inl (KeyNotFound key, model))
      | Some (Found st) \<Rightarrow>
          let vals = replicate (dim_size (cur_dim st)) 0 in
          if cur_dim st = [] then Some (Inl (NoLastDim, model))
          else
            let size = last (cur_dim st); dim' = butlast (cur_dim st) in
            (case add_lookup_parameters model size dim' of (m1, j) \<Rightarrow>
             let m2 = m1\<lparr>lookup_params :=
                        (lookup_params m1)[j := (lookup_params m1 ! j)\<lparr>lp_name := cur_name st\<rparr>]\<rparr>
             in
             case decode_payload get (datastream st) (cur_line st) vals of
               FirstFailed e \<Rightarrow> Some (Inl (e, m2))
             | SecondFailed v1 e \<Rightarrow> Some (Inl (e, set_values (LookupTarget j) v1 m2))
             | Decoded v1 v2 \<Rightarrow>
                 Some (Inr (set_grads (LookupTarget j) v2
                              (set_values (LookupTarget j) v1 m2), j))))"

section \<open>Files as sequences of records\<close>

text \<open>
  The specification describes the file as a sequence of records, each ``one
  serialized entity: header (tag, key, shape, payload length) + payload'', the
  header being ``one line of whitespace-separated fields'' and the payload ``exactly
  \<open>payload_length_bytes\<close>'' long.  These definitions follow those words; the claims
  about the readers are stated on files of this form.  The payload of a record is
  any byte string.
\<close>

record frec =
  r_tag :: string
  r_key :: string
  r_dim :: dim
  r_payload :: string

definition header_line :: "frec \<Rightarrow> string" where
  "header_line r =
     r_tag r @ '' '' @ r_key r @ '' '' @ show_dim (r_dim r) @ '' ''
     @ show_nat (length (r_payload r))"

definition render_rec :: "frec \<Rightarrow> string" where
  "render_rec r = header_line r @ endl @ r_payload r"

definition render_file :: "frec list \<Rightarrow> string" where
  "render_file rs = concat (map render_rec rs)"

text \<open>A field of a header: not empty, and free of white space.\<close>

definition token :: "string \<Rightarrow> bool" where
  "token w = (w \<noteq> [] \<and> list_all (\<lambda>c. \<not> is_space c) w)"

definition wf_header :: "frec \<Rightarrow> bool" where
  "wf_header r = (token (r_tag r) \<and> token (r_key r))"

text \<open>The two lines of a payload that is made of two lines.\<close>

definition line1 :: "string \<Rightarrow> string" where
  "line1 p = takeWhile (\<lambda>c. c \<noteq> newline) p"

definition line2 :: "string \<Rightarrow> string" where
  "line2 p = takeWhile (\<lambda>c. c \<noteq> newline) (drop (length (line1 p) + 1) p)"

definition two_lines :: "string \<Rightarrow> bool" where
  "two_lines p = (p = line1 p @ endl @ line2 p @ endl)"

text \<open>
  What a reader decodes from the payload of a record: the first line is extracted
  into \<open>dim.size()\<close> zeros, the second into the result of the first.
\<close>

definition decoded_values :: "'a::zero get \<Rightarrow> frec \<Rightarrow> 'a list" where
  "decoded_values get r =
     (case get (line1 (r_payload r)) (replicate (dim_size (r_dim r)) 0) of
        Inl e \<Rightarrow> [] | Inr v \<Rightarrow> v)"

definition decoded_grads :: "'a::zero get \<Rightarrow> frec \<Rightarrow> 'a list" where
  "decoded_grads get r =
     (case get (line2 (r_payload r)) (decoded_values get r) of
        Inl e \<Rightarrow> [] | Inr v \<Rightarrow> v)"


text \<open>
  The record selected by \<open>populate(ParameterCollection &, key)\<close>: every record when
  the key is empty, otherwise those whose key starts with the normalised key.
\<close>

definition selected :: "string \<Rightarrow> frec \<Rightarrow> bool" where
  "selected key r =
     (key = [] \<or> take (length (normalize_key key)) (r_key r) = normalize_key key)"

definition param_records :: "string \<Rightarrow> frec list \<Rightarrow> frec list" where
  "param_records key rs = filter (\<lambda>r. selected key r \<and> r_tag r = ''#Parameter#'') rs"

definition lookup_records :: "string \<Rightarrow> frec list \<Rightarrow> frec list" where
  "lookup_records key rs = filter (\<lambda>r. selected key r \<and> r_tag r = ''#LookupParameter#'') rs"

text \<open>
  A payload every reader decodes alike: two lines that the extraction operator
  turns into the same two vectors whatever the former contents of \<open>values\<close>, the
  first of them as long as the shape says.
\<close>

definition decodable :: "'a::zero get \<Rightarrow> frec \<Rightarrow> bool" where
  "decodable get r =
     (two_lines (r_payload r)
      \<and> length (decoded_values get r) = dim_size (r_dim r)
      \<and> (\<forall>buf. length buf = dim_size (r_dim r) \<longrightarrow>
             get (line1 (r_payload r)) buf = Inr (decoded_values get r)
             \<and> get (line2 (r_payload r)) buf = Inr (decoded_grads get r)))"

text \<open>An entity after its arrays were overwritten with what a record holds.\<close>

definition fill_param :: "'a::zero get \<Rightarrow> 'a parameter_storage \<Rightarrow> frec \<Rightarrow> 'a parameter_storage"
  where
  "fill_param get p r =
     p\<lparr>p_values := set_elements (p_values p) (decoded_values get r),
       p_g := set_elements (p_g p) (decoded_grads get r)\<rparr>"

definition fill_lookup ::
  "'a::zero get \<Rightarrow> 'a lookup_parameter_storage \<Rightarrow> frec \<Rightarrow> 'a lookup_parameter_storage" where
  "fill_lookup get p r =
     p\<lparr>lp_all_values := set_elements (lp_all_values p) (decoded_values get r),
       lp_all_grads := set_elements (lp_all_grads p) (decoded_grads get r)\<rparr>"

text \<open>The entities from index \<open>i\<close> on, filled in turn from a list of records.\<close>

fun fill_params_from ::
  "'a::zero get \<Rightarrow> nat \<Rightarrow> 'a parameter_storage list \<Rightarrow> frec list \<Rightarrow> 'a parameter_storage list"
  where
  "fill_params_from get i ps [] = ps"
| "fill_params_from get i ps (r # rs) =
     fill_params_from get (Suc i) (ps[i := fill_param get (ps ! i) r]) rs"

fun fill_lookups_from ::
  "'a::zero get \<Rightarrow> nat \<Rightarrow> 'a lookup_parameter_storage list \<Rightarrow> frec list
     \<Rightarrow> 'a lookup_parameter_storage list" where
  "fill_lookups_from get j ps [] = ps"
| "fill_lookups_from get j ps (r # rs) =
     fill_lookups_from get (Suc j) (ps[j := fill_lookup get (ps ! j) r]) rs"

text \<open>
  A sequence of records the populate loop goes through without an error: every
  header is well formed; every selected record has one of the two tags and a
  decodable payload; and the shapes of the selected records of either kind are, in
  order, the shapes of the first entities of that kind in the collection.
\<close>

definition accepted :: "'a::zero get \<Rightarrow> 'a parameter_collection \<Rightarrow> string \<Rightarrow> frec list \<Rightarrow> bool"
  where
  "accepted get m key rs =
     ((\<forall>r \<in> set rs. wf_header r)
      \<and> (\<forall>r \<in> set rs. selected key r \<longrightarrow>
            (r_tag r = ''#Parameter#'' \<or> r_tag r = ''#LookupParameter#'') \<and> decodable get r)
      \<and> take (length (param_records key rs)) (map p_dim (params m))
            = map r_dim (param_records key rs)
      \<and> take (length (lookup_records key rs)) (map lp_all_dim (lookup_params m))
            = map r_dim (lookup_records key rs))"

text \<open>The error of a failed operation, without the state that comes with it.\<close>

definition outcome_error :: "((error \<times> 's) + 'r) option \<Rightarrow> error option" where
  "outcome_error x = (case x of Some (Inl (e, st)) \<Rightarrow> Some e | _ \<Rightarrow> None)"

text \<open>
  The records the saver writes.  \<open>written_key\<close> is the key of the record of an entity
  in \<open>save(const ParameterCollection &, key)\<close>: the name of the entity when the key is
  empty, otherwise the normalised key followed by the name without its first
  \<open>strip_size\<close> characters.
\<close>

definition param_record :: "'a put \<Rightarrow> string \<Rightarrow> 'a parameter_storage \<Rightarrow> frec" where
  "param_record put k p =
     \<lparr>r_tag = ''#Parameter#'', r_key = k, r_dim = p_dim p,
      r_payload = put (p_values p) @ endl @ put (p_g p) @ endl\<rparr>"

definition lookup_record :: "'a put \<Rightarrow> string \<Rightarrow> 'a lookup_parameter_storage \<Rightarrow> frec" where
  "lookup_record put k p =
     \<lparr>r_tag = ''#LookupParameter#'', r_key = k, r_dim = lp_all_dim p,
      r_payload = put (lp_all_values p) @ endl @ put (lp_all_grads p) @ endl\<rparr>"

definition written_key :: "'a parameter_collection \<Rightarrow> string \<Rightarrow> string \<Rightarrow> string" where
  "written_key m key name =
     (if key = [] then name else normalize_key key @ drop (length (fullname m)) name)"

definition saved_records :: "'a put \<Rightarrow> 'a parameter_collection \<Rightarrow> string \<Rightarrow> frec list" where
  "saved_records put m key =
     map (\<lambda>p. param_record put (written_key m key (p_name p)) p) (params m)
     @ map (\<lambda>p. lookup_record put (written_key m key (lp_name p)) p) (lookup_params m)"

text \<open>
  The text of a vector that the codec reproduces: it stays on its line, and the
  extraction into a vector of the same length gives the vector back.
\<close>

definition codec_ok :: "'a put \<Rightarrow> 'a get \<Rightarrow> 'a list \<Rightarrow> bool" where
  "codec_ok put get v =
     (newline \<notin> set (put v) \<and> (\<forall>buf. length buf = length v \<longrightarrow> get (put v) buf = Inr v))"

text \<open>The arrays of every entity have the number of elements of its shape.\<close>

definition tensors_ok :: "'a parameter_collection \<Rightarrow> bool" where
  "tensors_ok m =
     ((\<forall>p \<in> set (params m).
         length (p_values p) = dim_size (p_dim p) \<and> length (p_g p) = dim_size (p_dim p))
      \<and> (\<forall>p \<in> set (lookup_params m).
         length (lp_all_values p) = dim_size (lp_all_dim p)
         \<and> length (lp_all_grads p) = dim_size (lp_all_dim p)))"

text \<open>
  A stream in good state that has \<open>rest\<close> left to read, on a file that an
  \<open>off_t\<close> can measure.
\<close>

definition stands_at :: "ifstream \<Rightarrow> string \<Rightarrow> bool" where
  "stands_at s rest =
     (\<not> eofbit s \<and> \<not> failbit s \<and> drop (gpos s) (content s) = rest
      \<and> gpos s + length rest = length (content s) \<and> length (content s) < 2 ^ 63)"

section \<open>An instance of the vector codec\<close>

text \<open>
  For the evaluation of examples: vectors of natural numbers, written in decimal and
  separated by one blank.  The extraction reads the leading numbers of the line
  and stores them over the first elements of \<open>values\<close>; more numbers than elements is
  an error.
\<close>

definition nat_put :: "nat put" where
  "nat_put v = join '' '' (map show_nat v)"

definition nat_get :: "nat get" where
  "nat_get line vals =
     (let ws = filter (\<lambda>w. w \<noteq> []) (split_on CHR '' '' line);
          xs = map digits_value (takeWhile (list_all is_digit) ws)
      in if length xs > length vals then Inl (VectorError line)
         else Inr (xs @ drop (length xs) vals))"

section \<open>Example data\<close>

text \<open>
  A small file of three records and the entities they are read into, for the
  evaluation of the theorems on concrete inputs.  The second record lies outside
  the namespace \<open>/a\<close> and its payload is not vector text.
\<close>

definition ex_recA :: frec where
  "ex_recA =
     \<lparr>r_tag = ''#Parameter#'', r_key = ''/a/w'', r_dim = [2],
      r_payload = ''1 2'' @ endl @ ''3 4'' @ endl\<rparr>"

definition ex_recB :: frec where
  "ex_recB =
     \<lparr>r_tag = ''#Parameter#'', r_key = ''/b/w'', r_dim = [3],
      r_payload = ''not'' @ endl @ ''a vector''\<rparr>"

definition ex_recC :: frec where
  "ex_recC =
     \<lparr>r_tag = ''#LookupParameter#'', r_key = ''/a/emb'', r_dim = [2, 2],
      r_payload = ''5 6 7 8'' @ endl @ ''0 0 0 1'' @ endl\<rparr>"

definition ex_recs :: "frec list" where
  "ex_recs = [ex_recA, ex_recB, ex_recC]"

definition ex_param :: "nat parameter_storage" where
  "ex_param = \<lparr>p_name = ''/w'', p_dim = [2], p_values = [0, 0], p_g = [0, 0]\<rparr>"

definition ex_lookup :: "nat lookup_parameter_storage" where
  "ex_lookup =
     \<lparr>lp_name = ''/emb'', lp_dim = [2], lp_all_dim = [2, 2],
      lp_all_values = [0, 0, 0, 0], lp_all_grads = [0, 0, 0, 0]\<rparr>"

definition ex_pc :: "nat parameter_collection" where
  "ex_pc = \<lparr>fullname = ''/'', params = [ex_param], lookup_params = [ex_lookup]\<rparr>"

text \<open>A collection with two Parameters, and one with no entity.\<close>

definition ex_two :: "nat parameter_collection" where
  "ex_two = \<lparr>fullname = ''/'', params = [ex_param, ex_param], lookup_params = []\<rparr>"

definition ex_empty :: "nat parameter_collection" where
  "ex_empty = \<lparr>fullname = ''/'', params = [], lookup_params = []\<rparr>"

text \<open>A second Parameter record of the namespace, and a record with a tag of its own.\<close>

definition ex_recD :: frec where
  "ex_recD =
     \<lparr>r_tag = ''#Parameter#'', r_key = ''/a/v'', r_dim = [2],
      r_payload = ''7 8'' @ endl @ ''9 9'' @ endl\<rparr>"

definition ex_recT :: frec where
  "ex_recT =
     \<lparr>r_tag = ''#Tensor#'', r_key = ''/a/t'', r_dim = [2],
      r_payload = ''7 8'' @ endl @ ''9 9'' @ endl\<rparr>"

text \<open>Records that declare the shapes \<open>{3,5}\<close>, and entities of shape \<open>{3,4}\<close>.\<close>

definition ex_rec35 :: frec where
  "ex_rec35 =
     \<lparr>r_tag = ''#Parameter#'', r_key = ''/a/m'', r_dim = [3, 5], r_payload = ''x''\<rparr>"

definition ex_lrec35 :: frec where
  "ex_lrec35 =
     \<lparr>r_tag = ''#LookupParameter#'', r_key = ''/a/m'', r_dim = [3, 5], r_payload = ''x''\<rparr>"

definition ex_param34 :: "nat parameter_storage" where
  "ex_param34 =
     \<lparr>p_name = ''/m'', p_dim = [3, 4], p_values = replicate 12 1, p_g = replicate 12 0\<rparr>"

definition ex_lookup34 :: "nat lookup_parameter_storage" where
  "ex_lookup34 =
     \<lparr>lp_name = ''/m'', lp_dim = [3], lp_all_dim = [3, 4],
      lp_all_values = replicate 12 1, lp_all_grads = replicate 12 0\<rparr>"

definition ex_pc34 :: "nat parameter_collection" where
  "ex_pc34 =
     \<lparr>fullname = ''/'', params = [ex_param, ex_param34], lookup_params = [ex_lookup34]\<rparr>"

text \<open>A lookup record of shape \<open>{4,10}\<close>: ten rows of four numbers.\<close>

definition ex_lookup_rec :: frec where
  "ex_lookup_rec =
     \<lparr>r_tag = ''#LookupParameter#'', r_key = ''/emb'', r_dim = [4, 10],
      r_payload = ''1 2 3 4 5 6 7 8 9 10 11 12 13 14 15 16 17 18 19 20 21 22 23 24 25 26 27 28 29 30 31 32 33 34 35 36 37 38 39 40'' @ endl
        @ ''0 0 0 0 0 0 0 0 0 0 0 0 0 0 0 0 0 0 0 0 0 0 0 0 0 0 0 0 0 0 0 0 0 0 0 0 0 0 0 0'' @ endl\<rparr>"

text \<open>
  A collection with values to save, a key with a tabulator in it, and the file the
  saver writes for the two.
\<close>

definition ex_src :: "nat parameter_collection" where
  "ex_src =
     \<lparr>fullname = ''/'',
      params = [\<lparr>p_name = ''/w'', p_dim = [2], p_values = [1, 2], p_g = [3, 4]\<rparr>],
      lookup_params = [\<lparr>lp_name = ''/emb'', lp_dim = [2], lp_all_dim = [2, 2],
                        lp_all_values = [5, 6, 7, 8], lp_all_grads = [0, 0, 0, 1]\<rparr>]\<rparr>"

definition ex_saved_bytes :: string where
  "ex_saved_bytes =
     ''#Parameter# /x/w {2} 8'' @ endl @ ''1 2'' @ endl @ ''3 4'' @ endl
     @ ''#LookupParameter# /x/emb {2,2} 16'' @ endl @ ''5 6 7 8'' @ endl @ ''0 0 0 1'' @ endl"

definition ex_one :: "nat parameter_collection" where
  "ex_one =
     \<lparr>fullname = ''/'',
      params = [\<lparr>p_name = ''/w'', p_dim = [1], p_values = [1], p_g = [0]\<rparr>],
      lookup_params = []\<rparr>"

definition ex_tab_key :: string where
  "ex_tab_key = [CHR ''/'', CHR ''a'', CHR 0x09, CHR ''b'']"

definition ex_tab_bytes :: string where
  "ex_tab_bytes =
     ''#Parameter# '' @ ex_tab_key @ ''/w {1} 4'' @ endl @ ''1'' @ endl @ ''0'' @ endl"




section \<open>Properties\<close>

subsection \<open>Decimal numerals, shapes and header lines\<close>

lemma is_digit_digit_char: "d < 10 \<Longrightarrow> is_digit (digit_char d)"
  by (simp add: is_digit_def digit_char_def)

lemma digit_value_digit_char: "d < 10 \<Longrightarrow> digit_value (digit_char d) = d"
  by (simp add: digit_value_def digit_char_def)

lemma show_nat_digits: "c \<in> set (show_nat n) \<Longrightarrow> is_digit c"
proof (induction n arbitrary: c rule: show_nat.induct)
  case (1 n)
  show ?case
  proof (cases "n < 10")
    case True
    with "1.prems" show ?thesis
      by (simp add: show_nat.simps [of n] is_digit_digit_char)
  next
    case False
    with "1.prems" have "c \<in> set (show_nat (n div 10)) \<or> c = digit_char (n mod 10)"
      by (auto simp: show_nat.simps [of n])
    then show ?thesis
      using "1.IH" [OF False] by (auto simp: is_digit_digit_char)
  qed
qed

lemma show_nat_nonempty: "show_nat n \<noteq> []"
  by (simp add: show_nat.simps [of n])

lemma digits_value_snoc: "digits_value (ds @ [c]) = 10 * digits_value ds + digit_value c"
  by (simp add: digits_value_def)

lemma digits_value_show_nat: "digits_value (show_nat n) = n"
proof (induction n rule: show_nat.induct)
  case (1 n)
  show ?case
  proof (cases "n < 10")
    case True
    then show ?thesis
      by (simp add: show_nat.simps [of n] digits_value_def digit_value_digit_char)
  next
    case False
    then show ?thesis
      using "1.IH" by (simp add: show_nat.simps [of n] digits_value_snoc digit_value_digit_char)
  qed
qed

lemma is_digit_not_space: "is_digit c \<Longrightarrow> \<not> is_space c"
  by (auto simp: is_digit_def is_space_def)

lemma is_digit_not_special:
  "is_digit c \<Longrightarrow> c \<noteq> newline \<and> c \<noteq> CHR '','' \<and> c \<noteq> CHR ''}'' \<and> c \<noteq> CHR ''{''
      \<and> c \<noteq> CHR ''-'' \<and> c \<noteq> CHR ''+'' \<and> c \<noteq> CHR '' ''"
  by (auto simp: is_digit_def newline_def)

lemma takeWhile_append_stop:
  "\<forall>x \<in> set xs. P x \<Longrightarrow> \<not> P y \<Longrightarrow> takeWhile P (xs @ y # ys) = xs"
  by (induction xs) auto

lemma dropWhile_append_stop:
  "\<forall>x \<in> set xs. P x \<Longrightarrow> \<not> P y \<Longrightarrow> dropWhile P (xs @ y # ys) = y # ys"
  by (induction xs) auto

lemma split_on_no_sep: "sep \<notin> set w \<Longrightarrow> split_on sep w = [w]"
  by (induction w) (auto split: list.splits)

lemma split_on_append_sep:
  "sep \<notin> set w \<Longrightarrow> split_on sep (w @ sep # rest) = w # split_on sep rest"
  by (induction w) (auto split: list.splits)

lemma split_on_join:
  "ws \<noteq> [] \<Longrightarrow> \<forall>w \<in> set ws. sep \<notin> set w \<Longrightarrow> split_on sep (join [sep] ws) = ws"
proof (induction ws)
  case Nil
  then show ?case by simp
next
  case (Cons w ws)
  show ?case
  proof (cases ws)
    case Nil
    with Cons.prems show ?thesis by (simp add: split_on_no_sep)
  next
    case (Cons v vs)
    with Cons.IH Cons.prems show ?thesis by (simp add: split_on_append_sep)
  qed
qed

lemma set_join: "set (join sep ws) \<subseteq> set sep \<union> \<Union> (set ` set ws)"
  by (induction sep ws rule: join.induct) auto

lemma join_nonempty: "ws \<noteq> [] \<Longrightarrow> \<forall>w \<in> set ws. w \<noteq> [] \<Longrightarrow> join sep ws \<noteq> []"
  by (induction sep ws rule: join.induct) auto

lemma show_dim_chars:
  "c \<in> set (show_dim d) \<Longrightarrow> c = CHR ''{'' \<or> c = CHR ''}'' \<or> c = CHR '','' \<or> is_digit c"
  using set_join [of "'',''" "map show_nat d"]
  by (auto simp: show_dim_def dest: show_nat_digits)

lemma show_dim_no_space: "c \<in> set (show_dim d) \<Longrightarrow> \<not> is_space c"
  by (auto dest!: show_dim_chars simp: is_digit_not_space) (auto simp: is_space_def)

lemma parse_dim_show_dim: "parse_dim (show_dim d @ rest) = Some (d, rest)"
proof (cases "d = []")
  case True
  then show ?thesis by (simp add: parse_dim_def show_dim_def)
next
  case False
  let ?body = "join '','' (map show_nat d)"
  have nb: "\<forall>x \<in> set ?body. x \<noteq> CHR ''}''"
    using set_join [of "'',''" "map show_nat d"]
    by (auto dest: show_nat_digits is_digit_not_special)
  have ne: "?body \<noteq> []"
    using False by (intro join_nonempty) (auto simp: show_nat_nonempty)
  have sp: "split_on CHR '','' ?body = map show_nat d"
    using False split_on_join [of "map show_nat d" "CHR '',''"]
    by (auto dest: show_nat_digits is_digit_not_special)
  have tw: "takeWhile (\<lambda>x. x \<noteq> CHR ''}'') (?body @ CHR ''}'' # rest) = ?body"
    using nb by (intro takeWhile_append_stop) auto
  have dw: "dropWhile (\<lambda>x. x \<noteq> CHR ''}'') (?body @ CHR ''}'' # rest) = CHR ''}'' # rest"
    using nb by (intro dropWhile_append_stop) auto
  have all: "list_all (\<lambda>w. w \<noteq> [] \<and> list_all is_digit w) (map show_nat d)"
    by (auto simp: list_all_iff show_nat_nonempty show_nat_digits)
  have vals: "map digits_value (map show_nat d) = d"
    by (simp add: digits_value_show_nat comp_def)
  show ?thesis
    using ne all vals by (simp add: parse_dim_def show_dim_def tw dw sp Let_def)
qed


lemma token_takeWhile:
  "token w \<Longrightarrow> is_space c \<Longrightarrow> takeWhile (\<lambda>c. \<not> is_space c) (w @ c # rest) = w"
  by (intro takeWhile_append_stop) (auto simp: token_def list_all_iff)

lemma token_dropWhile:
  "token w \<Longrightarrow> is_space c \<Longrightarrow> dropWhile (\<lambda>c. \<not> is_space c) (w @ c # rest) = c # rest"
  by (intro dropWhile_append_stop) (auto simp: token_def list_all_iff)

lemma skipws_no_space: "s \<noteq> [] \<Longrightarrow> \<not> is_space (hd s) \<Longrightarrow> skipws s = s"
  by (cases s) (auto simp: skipws_def)

lemma skipws_blank: "skipws (CHR '' '' # s) = skipws s"
  by (simp add: skipws_def is_space_def)

lemma token_hd: "token w \<Longrightarrow> \<not> is_space (hd (w @ rest)) \<and> w @ rest \<noteq> []"
  by (cases w) (auto simp: token_def)

lemma is_space_blank: "is_space CHR '' ''"
  by (simp add: is_space_def)

lemma extract_string_token0:
  assumes "token w"
  shows "extract_string (w @ CHR '' '' # rest, False) old = (w, (CHR '' '' # rest, False))"
proof -
  have sk: "skipws (w @ CHR '' '' # rest) = w @ CHR '' '' # rest"
    using token_hd [OF assms, of "CHR '' '' # rest"] by (intro skipws_no_space) auto
  show ?thesis
    by (simp add: extract_string_def sk token_takeWhile [OF assms is_space_blank]
        token_dropWhile [OF assms is_space_blank] Let_def)
qed

lemma extract_string_token:
  assumes "token w"
  shows "extract_string (CHR '' '' # w @ CHR '' '' # rest, False) old =
           (w, (CHR '' '' # rest, False))"
proof -
  have sk: "skipws (CHR '' '' # w @ CHR '' '' # rest) = w @ CHR '' '' # rest"
    using token_hd [OF assms, of "CHR '' '' # rest"]
    by (simp add: skipws_blank skipws_no_space)
  show ?thesis
    by (simp add: extract_string_def sk token_takeWhile [OF assms is_space_blank]
        token_dropWhile [OF assms is_space_blank] Let_def)
qed

lemma show_dim_hd: "show_dim d @ rest \<noteq> [] \<and> \<not> is_space (hd (show_dim d @ rest))"
  by (simp add: show_dim_def is_space_def)

lemma extract_dim_show_dim:
  "extract_dim (CHR '' '' # show_dim d @ rest, False) old = (d, (rest, False))"
  using show_dim_hd [of d rest]
  by (simp add: extract_dim_def skipws_blank skipws_no_space parse_dim_show_dim)

lemma show_nat_hd: "is_digit (hd (show_nat n))"
  using show_nat_digits [of "hd (show_nat n)" n] show_nat_nonempty [of n] by simp

lemma takeWhile_all: "\<forall>x \<in> set xs. P x \<Longrightarrow> takeWhile P xs = xs"
  by (induction xs) auto

lemma extract_size_t_show_nat:
  assumes "n < size_t_range"
  shows "extract_size_t (CHR '' '' # show_nat n, False) old = (n, ([], False))"
proof -
  have hd: "is_digit (hd (show_nat n))" by (rule show_nat_hd)
  have ne: "show_nat n \<noteq> []" by (rule show_nat_nonempty)
  have sk: "skipws (show_nat n) = show_nat n"
    using hd ne by (intro skipws_no_space) (auto dest: is_digit_not_space)
  have sg: "hd (show_nat n) \<noteq> CHR ''-''" "hd (show_nat n) \<noteq> CHR ''+''"
    using is_digit_not_special [OF hd] by auto
  have tw: "takeWhile is_digit (show_nat n) = show_nat n"
    by (intro takeWhile_all) (auto dest: show_nat_digits)
  have dw: "dropWhile is_digit (show_nat n) = []"
    by (auto dest: show_nat_digits)
  show ?thesis
    using assms ne sg
    by (simp add: extract_size_t_def skipws_blank sk tw dw digits_value_show_nat Let_def)
qed

lemma read_header_header_line:
  assumes "wf_header r" and "length (r_payload r) < size_t_range"
    and "cur_line st = header_line r"
  shows "read_header st =
     st\<lparr>cur_type := r_tag r, cur_name := r_key r, cur_dim := r_dim r,
        byte_count := length (r_payload r)\<rparr>"
proof -
  let ?n = "length (r_payload r)"
  have t1: "token (r_tag r)" and t2: "token (r_key r)"
    using assms(1) by (auto simp: wf_header_def)
  have e1: "extract_string (cur_line st, False) (cur_type st) =
      (r_tag r, (CHR '' '' # r_key r @ CHR '' '' # show_dim (r_dim r) @ CHR '' '' # show_nat ?n, False))"
    using extract_string_token0 [OF t1] by (simp add: assms(3) header_line_def)
  have e2: "extract_string (CHR '' '' # r_key r @ CHR '' '' # show_dim (r_dim r) @ CHR '' '' # show_nat ?n, False) (cur_name st) =
      (r_key r, (CHR '' '' # show_dim (r_dim r) @ CHR '' '' # show_nat ?n, False))"
    using extract_string_token [OF t2] by simp
  have e3: "extract_dim (CHR '' '' # show_dim (r_dim r) @ CHR '' '' # show_nat ?n, False) (cur_dim st) =
      (r_dim r, (CHR '' '' # show_nat ?n, False))"
    by (rule extract_dim_show_dim)
  have e4: "extract_size_t (CHR '' '' # show_nat ?n, False) (byte_count st) = (?n, ([], False))"
    by (rule extract_size_t_show_nat [OF assms(2)])
  show ?thesis
    by (simp add: read_header_def e1 e2 e3 e4)
qed

subsection \<open>Streams and scans over files of records\<close>

lemma getline_line:
  assumes "stands_at s (l @ newline # rest)" and "newline \<notin> set l"
  shows "getline s x = (True, s\<lparr>gpos := Suc (gpos s + length l)\<rparr>, l)"
    and "stands_at (s\<lparr>gpos := Suc (gpos s + length l)\<rparr>) rest"
proof -
  have d: "drop (gpos s) (content s) = l @ newline # rest"
    and g: "\<not> eofbit s" "\<not> failbit s"
    and len: "gpos s + length (l @ newline # rest) = length (content s)"
    and sz: "length (content s) < 2 ^ 63"
    using assms(1) by (auto simp: stands_at_def)
  have tw: "takeWhile (\<lambda>c. c \<noteq> newline) (l @ newline # rest) = l"
    using assms(2) by (intro takeWhile_append_stop) auto
  show "getline s x = (True, s\<lparr>gpos := Suc (gpos s + length l)\<rparr>, l)"
    using g by (simp add: getline_def d tw Let_def)
  have "drop (Suc (gpos s + length l)) (content s) = drop (length l + 1) (drop (gpos s) (content s))"
    by (simp add: add.commute add.left_commute)
  also have "\<dots> = rest" by (simp add: d)
  finally show "stands_at (s\<lparr>gpos := Suc (gpos s + length l)\<rparr>) rest"
    using g len sz by (simp add: stands_at_def)
qed

lemma getline_eof:
  assumes "stands_at s []"
  shows "getline s x = (False, s\<lparr>eofbit := True, failbit := True\<rparr>, [])"
  using assms by (simp add: getline_def stands_at_def)

lemma skip_payload_exact:
  assumes "stands_at (datastream st) (p @ rest)" and "byte_count st = length p"
  shows "skip_payload st =
           st\<lparr>datastream := (datastream st)\<lparr>gpos := gpos (datastream st) + length p\<rparr>\<rparr>"
    and "stands_at ((datastream st)\<lparr>gpos := gpos (datastream st) + length p\<rparr>) rest"
proof -
  let ?s = "datastream st"
  have d: "drop (gpos ?s) (content ?s) = p @ rest"
    and g: "\<not> eofbit ?s" "\<not> failbit ?s"
    and len: "gpos ?s + length (p @ rest) = length (content ?s)"
    and sz: "length (content ?s) < 2 ^ 63"
    using assms(1) by (auto simp: stands_at_def)
  have b1: "gpos ?s < size_t_range" and b2: "gpos ?s + length p < size_t_range"
    and b3: "gpos ?s + length p < 2 ^ 63"
    using len sz by (auto simp: size_t_range_def)
  have "seekg ?s (gpos ?s + length p) = ?s\<lparr>gpos := gpos ?s + length p\<rparr>"
    using g b3 by (simp add: seekg_def Let_def)
  then show "skip_payload st = st\<lparr>datastream := ?s\<lparr>gpos := gpos ?s + length p\<rparr>\<rparr>"
    using g b1 b2 by (simp add: skip_payload_def tellg_def assms(2))
  have "drop (gpos ?s + length p) (content ?s) = drop (length p) (drop (gpos ?s) (content ?s))"
    by (simp add: add.commute)
  also have "\<dots> = rest" by (simp add: d)
  finally show "stands_at (?s\<lparr>gpos := gpos ?s + length p\<rparr>) rest"
    using g len sz by (simp add: stands_at_def)
qed

lemma token_no_newline: "token w \<Longrightarrow> newline \<notin> set w"
  by (auto simp: token_def list_all_iff is_space_def newline_def)

lemma show_dim_no_newline: "newline \<notin> set (show_dim d)"
  using show_dim_no_space [of newline d] by (auto simp: is_space_def newline_def)

lemma show_nat_no_newline: "newline \<notin> set (show_nat n)"
  using show_nat_digits [of newline n] is_digit_not_special [of newline] by auto

lemma header_line_no_newline: "wf_header r \<Longrightarrow> newline \<notin> set (header_line r)"
  by (auto simp: header_line_def wf_header_def token_no_newline show_dim_no_newline
      show_nat_no_newline) (simp add: newline_def)

lemma stands_at_length: "stands_at s (xs @ ys) \<Longrightarrow> length xs < 2 ^ 63"
  by (auto simp: stands_at_def)

text \<open>Reading the header of a record the stream stands at.\<close>

lemma read_record_header:
  assumes "wf_header r" and "stands_at (datastream st) (render_rec r @ rest)"
  shows "getline (datastream st) (cur_line st) =
           (True, (datastream st)\<lparr>gpos := Suc (gpos (datastream st) + length (header_line r))\<rparr>,
            header_line r)"
    and "stands_at ((datastream st)\<lparr>gpos := Suc (gpos (datastream st) + length (header_line r))\<rparr>)
           (r_payload r @ rest)"
    and "read_header (st\<lparr>datastream := ds, cur_line := header_line r\<rparr>) =
           st\<lparr>datastream := ds, cur_line := header_line r, cur_type := r_tag r,
              cur_name := r_key r, cur_dim := r_dim r, byte_count := length (r_payload r)\<rparr>"
proof -
  have s: "stands_at (datastream st) (header_line r @ newline # (r_payload r @ rest))"
    using assms(2) by (simp add: render_rec_def endl_def)
  show "getline (datastream st) (cur_line st) =
           (True, (datastream st)\<lparr>gpos := Suc (gpos (datastream st) + length (header_line r))\<rparr>,
            header_line r)"
    by (rule getline_line(1) [OF s header_line_no_newline [OF assms(1)]])
  show "stands_at ((datastream st)\<lparr>gpos := Suc (gpos (datastream st) + length (header_line r))\<rparr>)
           (r_payload r @ rest)"
    by (rule getline_line(2) [OF s header_line_no_newline [OF assms(1)]])
  have "length (r_payload r) < 2 ^ 63"
    using assms(2) by (auto simp: stands_at_def render_rec_def)
  then have "length (r_payload r) < size_t_range"
    by (simp add: size_t_range_def)
  then show "read_header (st\<lparr>datastream := ds, cur_line := header_line r\<rparr>) =
           st\<lparr>datastream := ds, cur_line := header_line r, cur_type := r_tag r,
              cur_name := r_key r, cur_dim := r_dim r, byte_count := length (r_payload r)\<rparr>"
    using read_header_header_line [OF assms(1), of "st\<lparr>datastream := ds, cur_line := header_line r\<rparr>"]
    by simp
qed


lemma render_file_Cons: "render_file (r # rs) @ rest = render_rec r @ (render_file rs @ rest)"
  by (simp add: render_file_def)

lemma length_render_rec: "length (render_rec r) = length (header_line r) + 1 + length (r_payload r)"
  by (simp add: render_rec_def endl_def)

lemma scan_for_skip:
  assumes "\<forall>r \<in> set pre. wf_header r \<and> \<not> (r_tag r = tag \<and> r_key r = key)"
    and "stands_at (datastream st) (render_file pre @ rest)"
  shows "\<exists>st'. scan_for tag key st = scan_for tag key st'
           \<and> stands_at (datastream st') rest
           \<and> datastream st' =
               (datastream st)\<lparr>gpos := gpos (datastream st) + length (render_file pre)\<rparr>"
  using assms
proof (induction pre arbitrary: st)
  case Nil
  then show ?case
    by (intro exI [of _ st]) (simp add: render_file_def)
next
  case (Cons r pre)
  let ?ds = "datastream st"
  let ?ds1 = "?ds\<lparr>gpos := Suc (gpos ?ds + length (header_line r))\<rparr>"
  let ?st1 = "st\<lparr>datastream := ?ds1, cur_line := header_line r, cur_type := r_tag r,
              cur_name := r_key r, cur_dim := r_dim r, byte_count := length (r_payload r)\<rparr>"
  let ?ds2 = "?ds1\<lparr>gpos := gpos ?ds1 + length (r_payload r)\<rparr>"
  let ?st2 = "?st1\<lparr>datastream := ?ds2\<rparr>"
  have wf: "wf_header r" and nm: "\<not> (r_tag r = tag \<and> r_key r = key)"
    using Cons.prems(1) by auto
  have at: "stands_at ?ds (render_rec r @ (render_file pre @ rest))"
    using Cons.prems(2) by (simp add: render_file_Cons)
  note hdr = read_record_header [OF wf at]
  have at1: "stands_at (datastream ?st1) (r_payload r @ (render_file pre @ rest))"
    using hdr(2) by simp
  have sk: "skip_payload ?st1 = ?st2"
    using skip_payload_exact(1) [OF at1] by simp
  have at2: "stands_at (datastream ?st2) (render_file pre @ rest)"
    using skip_payload_exact(2) [OF at1] by simp
  have "scan_for tag key st = scan_for tag key (skip_payload ?st1)"
    using nm by (subst scan_for.simps) (auto simp: hdr(1) hdr(3) Let_def)
  then have step: "scan_for tag key st = scan_for tag key ?st2"
    by (simp only: sk)
  from Cons.IH [OF _ at2] Cons.prems(1)
  obtain st' where st': "scan_for tag key ?st2 = scan_for tag key st'"
      "stands_at (datastream st') rest"
      "datastream st' = (datastream ?st2)\<lparr>gpos := gpos (datastream ?st2) + length (render_file pre)\<rparr>"
    by auto
  have "datastream st' = ?ds\<lparr>gpos := gpos ?ds + length (render_file (r # pre))\<rparr>"
    using st'(3) by (simp add: render_file_def length_render_rec add.assoc)
  with step st'(1,2) show ?case by auto
qed


lemma scan_for_found:
  assumes "\<forall>r \<in> set pre. wf_header r \<and> \<not> (r_tag r = tag \<and> r_key r = key)"
    and "wf_header r" and "r_tag r = tag" and "r_key r = key"
    and "stands_at (datastream st) (render_file pre @ render_rec r @ post)"
  shows "\<exists>st'. scan_for tag key st = Some (Found st')
           \<and> cur_type st' = tag \<and> cur_name st' = key \<and> cur_dim st' = r_dim r
           \<and> cur_line st' = header_line r \<and> byte_count st' = length (r_payload r)
           \<and> stands_at (datastream st') (r_payload r @ post)"
proof -
  from scan_for_skip [OF assms(1) assms(5)]
  obtain st1 where st1: "scan_for tag key st = scan_for tag key st1"
      "stands_at (datastream st1) (render_rec r @ post)"
    by auto
  note hdr = read_record_header [OF assms(2) st1(2)]
  let ?ds1 = "(datastream st1)\<lparr>gpos := Suc (gpos (datastream st1) + length (header_line r))\<rparr>"
  let ?st2 = "st1\<lparr>datastream := ?ds1, cur_line := header_line r, cur_type := r_tag r,
              cur_name := r_key r, cur_dim := r_dim r, byte_count := length (r_payload r)\<rparr>"
  have "scan_for tag key st1 = Some (Found ?st2)"
    using assms(3,4) by (subst scan_for.simps) (simp add: hdr(1) hdr(3) Let_def)
  then show ?thesis
    using st1(1) hdr(2) assms(3,4) by (intro exI [of _ ?st2]) simp
qed


lemma line1_no_newline: "newline \<notin> set (line1 p)"
  by (auto simp: line1_def dest: set_takeWhileD)

lemma line2_no_newline: "newline \<notin> set (line2 p)"
  by (auto simp: line2_def dest: set_takeWhileD)

lemma two_lines_split:
  "two_lines p \<Longrightarrow> p @ post = line1 p @ newline # (line2 p @ newline # post)"
  unfolding two_lines_def endl_def
  by (metis append.assoc append_Cons append_Nil)

lemma decode_payload_two_lines:
  assumes "two_lines p" and "stands_at ds (p @ post)"
  shows "decode_payload get ds x vals =
           (case get (line1 p) vals of
              Inl e \<Rightarrow> FirstFailed e
            | Inr v1 \<Rightarrow> (case get (line2 p) v1 of
                          Inl e \<Rightarrow> SecondFailed v1 e
                        | Inr v2 \<Rightarrow> Decoded v1 v2))"
proof -
  have at: "stands_at ds (line1 p @ newline # (line2 p @ newline # post))"
    using assms(2) two_lines_split [OF assms(1), of post] by simp
  note g1 = getline_line [OF at line1_no_newline]
  note g2 = getline_line [OF g1(2) line2_no_newline]
  show ?thesis
    by (simp add: decode_payload_def g1(1) g2(1) split: sum.splits)
qed

lemma stands_at_init: "length bytes < 2 ^ 63 \<Longrightarrow> stands_at (datastream (init_scan bytes)) bytes"
  by (simp add: stands_at_def init_scan_def open_stream_def)


subsection \<open>One iteration of the populate loop on a record\<close>

lemma length_resize: "length (resize n v) = n"
  by (simp add: resize_def)

lemma selected_cond:
  "(length key \<noteq> 0 \<and> take (length (normalize_key key)) (r_key r) \<noteq> normalize_key key)
     \<longleftrightarrow> \<not> selected key r"
  by (auto simp: selected_def)

lemma read_payload_two_lines:
  assumes "two_lines p" and "stands_at (datastream st) (p @ rest)"
    and "get (line1 p) (values_buf st) = Inr v1" and "get (line2 p) v1 = Inr v2"
  shows "\<exists>ds'. read_payload get t st =
            Inr (st\<lparr>datastream := ds', cur_line := line2 p, values_buf := v2,
                   storage := set_grads t v2 (set_values t v1 (storage st))\<rparr>)
          \<and> stands_at ds' rest"
proof -
  have at: "stands_at (datastream st) (line1 p @ newline # (line2 p @ newline # rest))"
    using assms(2) two_lines_split [OF assms(1), of rest] by simp
  note g1 = getline_line [OF at line1_no_newline]
  note g2 = getline_line [OF g1(2) line2_no_newline]
  let ?ds1 = "(datastream st)\<lparr>gpos := Suc (gpos (datastream st) + length (line1 p))\<rparr>"
  let ?ds2 = "?ds1\<lparr>gpos := Suc (gpos ?ds1 + length (line2 p))\<rparr>"
  have "read_payload get t st =
            Inr (st\<lparr>datastream := ?ds2, cur_line := line2 p, values_buf := v2,
                   storage := set_grads t v2 (set_values t v1 (storage st))\<rparr>)"
    by (simp add: read_payload_def g1(1) g2(1) assms(3,4) Let_def)
  then show ?thesis
    using g2(2) by blast
qed

lemma populate_loop_skip_step:
  fixes st :: "'a::zero populate_state"
  assumes "wf_header r" and "\<not> selected key r"
    and "stands_at (datastream st) (render_rec r @ rest)"
  shows "\<exists>st'. populate_loop get key (normalize_key key) st
                 = populate_loop get key (normalize_key key) st'
           \<and> stands_at (datastream st') rest
           \<and> param_id st' = param_id st \<and> lookup_id st' = lookup_id st
           \<and> storage st' = storage st"
proof -
  let ?ds = "datastream st"
  let ?ds1 = "?ds\<lparr>gpos := Suc (gpos ?ds + length (header_line r))\<rparr>"
  let ?st1 = "st\<lparr>datastream := ?ds1, cur_line := header_line r, cur_type := r_tag r,
              cur_name := r_key r, cur_dim := r_dim r, byte_count := length (r_payload r)\<rparr>"
  note hdr = read_record_header [OF assms(1) assms(3)]
  have at1: "stands_at (datastream ?st1) (r_payload r @ rest)"
    using hdr(2) by simp
  have body: "populate_body get key (normalize_key key) (st\<lparr>datastream := ?ds1, cur_line := header_line r\<rparr>)
      = Inr (skip_payload ?st1)"
    using assms(2) selected_cond [of key r]
    by (simp add: populate_body_def hdr(3) Let_def)
  have "populate_loop get key (normalize_key key) st
      = populate_loop get key (normalize_key key) (skip_payload ?st1)"
    by (subst populate_loop.simps) (simp add: hdr(1) body)
  moreover have "stands_at (datastream (skip_payload ?st1)) rest"
    using skip_payload_exact [OF at1] by simp
  moreover have "param_id (skip_payload ?st1) = param_id st"
      "lookup_id (skip_payload ?st1) = lookup_id st" "storage (skip_payload ?st1) = storage st"
    by (simp_all add: skip_payload_def split: prod.splits)
  ultimately show ?thesis by blast
qed

lemma set_param_filled:
  "i < length (params m) \<Longrightarrow>
   set_grads (ParamTarget i) (decoded_grads get r)
     (set_values (ParamTarget i) (decoded_values get r) m)
   = m\<lparr>params := (params m)[i := fill_param get (params m ! i) r]\<rparr>"
  by (simp add: set_grads_def set_values_def fill_param_def)

lemma set_lookup_filled:
  "j < length (lookup_params m) \<Longrightarrow>
   set_grads (LookupTarget j) (decoded_grads get r)
     (set_values (LookupTarget j) (decoded_values get r) m)
   = m\<lparr>lookup_params := (lookup_params m)[j := fill_lookup get (lookup_params m ! j) r]\<rparr>"
  by (simp add: set_grads_def set_values_def fill_lookup_def)

lemma populate_loop_param_step:
  fixes st :: "'a::zero populate_state"
  assumes "wf_header r" and "selected key r" and "r_tag r = ''#Parameter#''"
    and "decodable get r"
    and "stands_at (datastream st) (render_rec r @ rest)"
    and "param_id st < length (params (storage st))"
    and "p_dim (params (storage st) ! param_id st) = r_dim r"
  shows "\<exists>st'. populate_loop get key (normalize_key key) st
                 = populate_loop get key (normalize_key key) st'
           \<and> stands_at (datastream st') rest
           \<and> param_id st' = Suc (param_id st) \<and> lookup_id st' = lookup_id st
           \<and> storage st' = (storage st)\<lparr>params := (params (storage st))
                 [param_id st := fill_param get (params (storage st) ! param_id st) r]\<rparr>"
proof -
  let ?ds = "datastream st"
  let ?ds1 = "?ds\<lparr>gpos := Suc (gpos ?ds + length (header_line r))\<rparr>"
  let ?st2 = "st\<lparr>datastream := ?ds1, cur_line := header_line r, cur_type := r_tag r,
              cur_name := r_key r, cur_dim := r_dim r, byte_count := length (r_payload r),
              values_buf := resize (dim_size (r_dim r)) (values_buf st),
              param_id := Suc (param_id st)\<rparr>"
  note hdr = read_record_header [OF assms(1) assms(5)]
  have tl: "two_lines (r_payload r)"
    and len: "length (decoded_values get r) = dim_size (r_dim r)"
    and dec: "\<And>buf. length buf = dim_size (r_dim r) \<Longrightarrow>
          get (line1 (r_payload r)) buf = Inr (decoded_values get r)
          \<and> get (line2 (r_payload r)) buf = Inr (decoded_grads get r)"
    using assms(4) by (auto simp: decodable_def)
  have at2: "stands_at (datastream ?st2) (r_payload r @ rest)"
    using hdr(2) by simp
  have g1: "get (line1 (r_payload r)) (values_buf ?st2) = Inr (decoded_values get r)"
    using dec [of "resize (dim_size (r_dim r)) (values_buf st)"] by (simp add: length_resize)
  have g2: "get (line2 (r_payload r)) (decoded_values get r) = Inr (decoded_grads get r)"
    using dec [OF len] by simp
  from read_payload_two_lines [OF tl at2 g1 g2, of "ParamTarget (param_id st)"]
  obtain ds' where rp: "read_payload get (ParamTarget (param_id st)) ?st2 =
        Inr (?st2\<lparr>datastream := ds', cur_line := line2 (r_payload r),
               values_buf := decoded_grads get r,
               storage := set_grads (ParamTarget (param_id st)) (decoded_grads get r)
                 (set_values (ParamTarget (param_id st)) (decoded_values get r) (storage ?st2))\<rparr>)"
      and at': "stands_at ds' rest"
    by blast
  let ?st3 = "?st2\<lparr>datastream := ds', cur_line := line2 (r_payload r),
               values_buf := decoded_grads get r,
               storage := set_grads (ParamTarget (param_id st)) (decoded_grads get r)
                 (set_values (ParamTarget (param_id st)) (decoded_values get r) (storage ?st2))\<rparr>"
  have body: "populate_body get key (normalize_key key) (st\<lparr>datastream := ?ds1, cur_line := header_line r\<rparr>)
      = Inr ?st3"
    using assms(2,3,6,7) rp
    by (cases "key = []") (simp_all add: selected_def populate_body_def hdr(3) Let_def)
  have "populate_loop get key (normalize_key key) st
      = populate_loop get key (normalize_key key) ?st3"
    by (subst populate_loop.simps) (simp add: hdr(1) body)
  moreover have "stands_at (datastream ?st3) rest"
    using at' by simp
  moreover have "storage ?st3 = (storage st)\<lparr>params := (params (storage st))
                 [param_id st := fill_param get (params (storage st) ! param_id st) r]\<rparr>"
    using set_param_filled [OF assms(6), of get r] by simp
  moreover have "param_id ?st3 = Suc (param_id st)" "lookup_id ?st3 = lookup_id st"
    by simp_all
  ultimately show ?thesis by blast
qed

lemma populate_loop_lookup_step:
  fixes st :: "'a::zero populate_state"
  assumes "wf_header r" and "selected key r" and "r_tag r = ''#LookupParameter#''"
    and "decodable get r"
    and "stands_at (datastream st) (render_rec r @ rest)"
    and "lookup_id st < length (lookup_params (storage st))"
    and "lp_all_dim (lookup_params (storage st) ! lookup_id st) = r_dim r"
  shows "\<exists>st'. populate_loop get key (normalize_key key) st
                 = populate_loop get key (normalize_key key) st'
           \<and> stands_at (datastream st') rest
           \<and> param_id st' = param_id st \<and> lookup_id st' = Suc (lookup_id st)
           \<and> storage st' = (storage st)\<lparr>lookup_params := (lookup_params (storage st))
                 [lookup_id st := fill_lookup get (lookup_params (storage st) ! lookup_id st) r]\<rparr>"
proof -
  let ?ds = "datastream st"
  let ?ds1 = "?ds\<lparr>gpos := Suc (gpos ?ds + length (header_line r))\<rparr>"
  let ?st2 = "st\<lparr>datastream := ?ds1, cur_line := header_line r, cur_type := r_tag r,
              cur_name := r_key r, cur_dim := r_dim r, byte_count := length (r_payload r),
              values_buf := resize (dim_size (r_dim r)) (values_buf st),
              lookup_id := Suc (lookup_id st)\<rparr>"
  note hdr = read_record_header [OF assms(1) assms(5)]
  have tl: "two_lines (r_payload r)"
    and len: "length (decoded_values get r) = dim_size (r_dim r)"
    and dec: "\<And>buf. length buf = dim_size (r_dim r) \<Longrightarrow>
          get (line1 (r_payload r)) buf = Inr (decoded_values get r)
          \<and> get (line2 (r_payload r)) buf = Inr (decoded_grads get r)"
    using assms(4) by (auto simp: decodable_def)
  have at2: "stands_at (datastream ?st2) (r_payload r @ rest)"
    using hdr(2) by simp
  have g1: "get (line1 (r_payload r)) (values_buf ?st2) = Inr (decoded_values get r)"
    using dec [of "resize (dim_size (r_dim r)) (values_buf st)"] by (simp add: length_resize)
  have g2: "get (line2 (r_payload r)) (decoded_values get r) = Inr (decoded_grads get r)"
    using dec [OF len] by simp
  from read_payload_two_lines [OF tl at2 g1 g2, of "LookupTarget (lookup_id st)"]
  obtain ds' where rp: "read_payload get (LookupTarget (lookup_id st)) ?st2 =
        Inr (?st2\<lparr>datastream := ds', cur_line := line2 (r_payload r),
               values_buf := decoded_grads get r,
               storage := set_grads (LookupTarget (lookup_id st)) (decoded_grads get r)
                 (set_values (LookupTarget (lookup_id st)) (decoded_values get r) (storage ?st2))\<rparr>)"
      and at': "stands_at ds' rest"
    by blast
  let ?st3 = "?st2\<lparr>datastream := ds', cur_line := line2 (r_payload r),
               values_buf := decoded_grads get r,
               storage := set_grads (LookupTarget (lookup_id st)) (decoded_grads get r)
                 (set_values (LookupTarget (lookup_id st)) (decoded_values get r) (storage ?st2))\<rparr>"
  have body: "populate_body get key (normalize_key key) (st\<lparr>datastream := ?ds1, cur_line := header_line r\<rparr>)
      = Inr ?st3"
    using assms(2,3,6,7) rp
    by (cases "key = []") (simp_all add: selected_def populate_body_def hdr(3) Let_def)
  have "populate_loop get key (normalize_key key) st
      = populate_loop get key (normalize_key key) ?st3"
    by (subst populate_loop.simps) (simp add: hdr(1) body)
  moreover have "stands_at (datastream ?st3) rest"
    using at' by simp
  moreover have "storage ?st3 = (storage st)\<lparr>lookup_params := (lookup_params (storage st))
                 [lookup_id st := fill_lookup get (lookup_params (storage st) ! lookup_id st) r]\<rparr>"
    using set_lookup_filled [OF assms(6), of get r] by simp
  moreover have "param_id ?st3 = param_id st" "lookup_id ?st3 = Suc (lookup_id st)"
    by simp_all
  ultimately show ?thesis by blast
qed


lemma populate_loop_too_many_params:
  fixes st :: "'a::zero populate_state"
  assumes "wf_header r" and "selected key r" and "r_tag r = ''#Parameter#''"
    and "stands_at (datastream st) (render_rec r @ rest)"
    and "length (params (storage st)) \<le> param_id st"
  shows "\<exists>st'. populate_loop get key (normalize_key key) st
                 = Some (Inl (TooManyParams (r_key r), st'))
           \<and> storage st' = storage st \<and> param_id st' = param_id st
           \<and> lookup_id st' = lookup_id st"
proof -
  note hdr = read_record_header [OF assms(1) assms(4)]
  let ?ds1 = "(datastream st)\<lparr>gpos := Suc (gpos (datastream st) + length (header_line r))\<rparr>"
  let ?st1 = "st\<lparr>datastream := ?ds1, cur_line := header_line r, cur_type := r_tag r,
              cur_name := r_key r, cur_dim := r_dim r, byte_count := length (r_payload r),
              values_buf := resize (dim_size (r_dim r)) (values_buf st)\<rparr>"
  have body: "populate_body get key (normalize_key key)
        (st\<lparr>datastream := ?ds1, cur_line := header_line r\<rparr>)
      = Inl (TooManyParams (r_key r), ?st1)"
    using assms(2,3,5)
    by (cases "key = []") (simp_all add: selected_def populate_body_def hdr(3) Let_def)
  have "populate_loop get key (normalize_key key) st = Some (Inl (TooManyParams (r_key r), ?st1))"
    by (subst populate_loop.simps) (simp add: hdr(1) body)
  then show ?thesis
    by (intro exI [of _ ?st1]) simp
qed

lemma populate_loop_too_many_lookups:
  fixes st :: "'a::zero populate_state"
  assumes "wf_header r" and "selected key r" and "r_tag r = ''#LookupParameter#''"
    and "stands_at (datastream st) (render_rec r @ rest)"
    and "length (lookup_params (storage st)) \<le> lookup_id st"
  shows "\<exists>st'. populate_loop get key (normalize_key key) st
                 = Some (Inl (TooManyLookups (r_key r), st'))
           \<and> storage st' = storage st \<and> param_id st' = param_id st
           \<and> lookup_id st' = lookup_id st"
proof -
  note hdr = read_record_header [OF assms(1) assms(4)]
  let ?ds1 = "(datastream st)\<lparr>gpos := Suc (gpos (datastream st) + length (header_line r))\<rparr>"
  let ?st1 = "st\<lparr>datastream := ?ds1, cur_line := header_line r, cur_type := r_tag r,
              cur_name := r_key r, cur_dim := r_dim r, byte_count := length (r_payload r),
              values_buf := resize (dim_size (r_dim r)) (values_buf st)\<rparr>"
  have body: "populate_body get key (normalize_key key)
        (st\<lparr>datastream := ?ds1, cur_line := header_line r\<rparr>)
      = Inl (TooManyLookups (r_key r), ?st1)"
    using assms(2,3,5)
    by (cases "key = []") (simp_all add: selected_def populate_body_def hdr(3) Let_def)
  have "populate_loop get key (normalize_key key) st = Some (Inl (TooManyLookups (r_key r), ?st1))"
    by (subst populate_loop.simps) (simp add: hdr(1) body)
  then show ?thesis
    by (intro exI [of _ ?st1]) simp
qed

lemma populate_loop_param_mismatch:
  fixes st :: "'a::zero populate_state"
  assumes "wf_header r" and "selected key r" and "r_tag r = ''#Parameter#''"
    and "stands_at (datastream st) (render_rec r @ rest)"
    and "param_id st < length (params (storage st))"
    and "p_dim (params (storage st) ! param_id st) \<noteq> r_dim r"
  shows "\<exists>st'. populate_loop get key (normalize_key key) st
                 = Some (Inl (ParamDimMismatch (r_key r) (r_dim r)
                                (p_dim (params (storage st) ! param_id st)), st'))
           \<and> storage st' = storage st \<and> param_id st' = Suc (param_id st)
           \<and> lookup_id st' = lookup_id st"
proof -
  note hdr = read_record_header [OF assms(1) assms(4)]
  let ?ds1 = "(datastream st)\<lparr>gpos := Suc (gpos (datastream st) + length (header_line r))\<rparr>"
  let ?st1 = "st\<lparr>datastream := ?ds1, cur_line := header_line r, cur_type := r_tag r,
              cur_name := r_key r, cur_dim := r_dim r, byte_count := length (r_payload r),
              values_buf := resize (dim_size (r_dim r)) (values_buf st),
              param_id := Suc (param_id st)\<rparr>"
  have body: "populate_body get key (normalize_key key)
        (st\<lparr>datastream := ?ds1, cur_line := header_line r\<rparr>)
      = Inl (ParamDimMismatch (r_key r) (r_dim r)
               (p_dim (params (storage st) ! param_id st)), ?st1)"
    using assms(2,3,5,6)
    by (cases "key = []") (simp_all add: selected_def populate_body_def hdr(3) Let_def)
  have "populate_loop get key (normalize_key key) st
      = Some (Inl (ParamDimMismatch (r_key r) (r_dim r)
                     (p_dim (params (storage st) ! param_id st)), ?st1))"
    by (subst populate_loop.simps) (simp add: hdr(1) body)
  then show ?thesis
    by (intro exI [of _ ?st1]) simp
qed

lemma populate_loop_lookup_mismatch:
  fixes st :: "'a::zero populate_state"
  assumes "wf_header r" and "selected key r" and "r_tag r = ''#LookupParameter#''"
    and "stands_at (datastream st) (render_rec r @ rest)"
    and "lookup_id st < length (lookup_params (storage st))"
    and "lp_all_dim (lookup_params (storage st) ! lookup_id st) \<noteq> r_dim r"
  shows "\<exists>st'. populate_loop get key (normalize_key key) st
                 = Some (Inl (LookupDimMismatch (r_key r) (r_dim r)
                                (lp_all_dim (lookup_params (storage st) ! lookup_id st)), st'))
           \<and> storage st' = storage st \<and> param_id st' = param_id st
           \<and> lookup_id st' = Suc (lookup_id st)"
proof -
  note hdr = read_record_header [OF assms(1) assms(4)]
  let ?ds1 = "(datastream st)\<lparr>gpos := Suc (gpos (datastream st) + length (header_line r))\<rparr>"
  let ?st1 = "st\<lparr>datastream := ?ds1, cur_line := header_line r, cur_type := r_tag r,
              cur_name := r_key r, cur_dim := r_dim r, byte_count := length (r_payload r),
              values_buf := resize (dim_size (r_dim r)) (values_buf st),
              lookup_id := Suc (lookup_id st)\<rparr>"
  have body: "populate_body get key (normalize_key key)
        (st\<lparr>datastream := ?ds1, cur_line := header_line r\<rparr>)
      = Inl (LookupDimMismatch (r_key r) (r_dim r)
               (lp_all_dim (lookup_params (storage st) ! lookup_id st)), ?st1)"
    using assms(2,3,5,6)
    by (cases "key = []") (simp_all add: selected_def populate_body_def hdr(3) Let_def)
  have "populate_loop get key (normalize_key key) st
      = Some (Inl (LookupDimMismatch (r_key r) (r_dim r)
                     (lp_all_dim (lookup_params (storage st) ! lookup_id st)), ?st1))"
    by (subst populate_loop.simps) (simp add: hdr(1) body)
  then show ?thesis
    by (intro exI [of _ ?st1]) simp
qed


lemma populate_loop_end:
  fixes st :: "'a::zero populate_state"
  assumes "stands_at (datastream st) []"
  shows "\<exists>st'. populate_loop get key key' st = Some (Inr st')
           \<and> storage st' = storage st \<and> param_id st' = param_id st
           \<and> lookup_id st' = lookup_id st \<and> eofbit (datastream st')
           \<and> gpos (datastream st') = length (content (datastream st))"
proof -
  let ?st1 = "st\<lparr>datastream := (datastream st)\<lparr>eofbit := True, failbit := True\<rparr>,
                cur_line := []\<rparr>"
  have "populate_loop get key key' st = Some (Inr ?st1)"
    by (subst populate_loop.simps) (simp add: getline_eof [OF assms])
  moreover have "gpos (datastream st) = length (content (datastream st))"
    using assms by (simp add: stands_at_def)
  ultimately show ?thesis
    by (intro exI [of _ ?st1]) simp
qed

subsection \<open>The populate loop on a sequence of records\<close>

lemma map_update_same: "(map f ps)[i := f (ps ! i)] = map f ps"
  by (metis list_update_id map_update)

lemma map_p_dim_fill:
  "map p_dim (ps[i := fill_param get (ps ! i) r]) = map p_dim ps"
  by (simp add: map_update fill_param_def map_update_same)

lemma map_lp_all_dim_fill:
  "map lp_all_dim (ps[j := fill_lookup get (ps ! j) r]) = map lp_all_dim ps"
  by (simp add: map_update fill_lookup_def map_update_same)

lemma drop_eq_ConsD:
  "drop i xs = y # ys \<Longrightarrow> i < length xs \<and> xs ! i = y \<and> drop (Suc i) xs = ys"
  by (metis Cons_nth_drop_Suc drop_all list.distinct(1) list.inject not_less)

lemma param_records_Cons:
  "param_records key (r # rs) =
     (if selected key r \<and> r_tag r = ''#Parameter#'' then r # param_records key rs
      else param_records key rs)"
  by (simp add: param_records_def)

lemma lookup_records_Cons:
  "lookup_records key (r # rs) =
     (if selected key r \<and> r_tag r = ''#LookupParameter#'' then r # lookup_records key rs
      else lookup_records key rs)"
  by (simp add: lookup_records_def)

lemma populate_loop_prefix:
  fixes st :: "'a::zero populate_state"
  assumes "\<forall>r \<in> set pre. wf_header r"
    and "\<forall>r \<in> set pre. selected key r \<longrightarrow>
           (r_tag r = ''#Parameter#'' \<or> r_tag r = ''#LookupParameter#'') \<and> decodable get r"
    and "drop (param_id st) (map p_dim (params (storage st)))
           = map r_dim (param_records key pre) @ ptl"
    and "drop (lookup_id st) (map lp_all_dim (lookup_params (storage st)))
           = map r_dim (lookup_records key pre) @ ltl"
    and "stands_at (datastream st) (render_file pre @ rest)"
  shows "\<exists>st'. populate_loop get key (normalize_key key) st
                 = populate_loop get key (normalize_key key) st'
           \<and> stands_at (datastream st') rest
           \<and> param_id st' = param_id st + length (param_records key pre)
           \<and> lookup_id st' = lookup_id st + length (lookup_records key pre)
           \<and> storage st' = (storage st)
               \<lparr>params := fill_params_from get (param_id st) (params (storage st))
                            (param_records key pre),
                lookup_params := fill_lookups_from get (lookup_id st)
                            (lookup_params (storage st)) (lookup_records key pre)\<rparr>"
  using assms
proof (induction pre arbitrary: st)
  case Nil
  then show ?case
    by (intro exI [of _ st]) (simp add: render_file_def param_records_def lookup_records_def)
next
  case (Cons r pre)
  have wf: "wf_header r" using Cons.prems(1) by simp
  have wfs: "\<forall>q \<in> set pre. wf_header q" using Cons.prems(1) by simp
  have datas: "\<forall>q \<in> set pre. selected key q \<longrightarrow>
           (r_tag q = ''#Parameter#'' \<or> r_tag q = ''#LookupParameter#'') \<and> decodable get q"
    using Cons.prems(2) by simp
  have at: "stands_at (datastream st) (render_rec r @ (render_file pre @ rest))"
    using Cons.prems(5) by (simp add: render_file_Cons)
  show ?case
  proof (cases "selected key r")
    case False
    from populate_loop_skip_step [OF wf False at, of get]
    obtain st1 where st1: "populate_loop get key (normalize_key key) st
                 = populate_loop get key (normalize_key key) st1"
        "stands_at (datastream st1) (render_file pre @ rest)"
        "param_id st1 = param_id st" "lookup_id st1 = lookup_id st" "storage st1 = storage st"
      by blast
    have pd: "drop (param_id st1) (map p_dim (params (storage st1)))
           = map r_dim (param_records key pre) @ ptl"
      using Cons.prems(3) False st1(3,5) by (simp add: param_records_Cons)
    have ld: "drop (lookup_id st1) (map lp_all_dim (lookup_params (storage st1)))
           = map r_dim (lookup_records key pre) @ ltl"
      using Cons.prems(4) False st1(4,5) by (simp add: lookup_records_Cons)
    from Cons.IH [OF wfs datas pd ld st1(2)]
    obtain st' where "populate_loop get key (normalize_key key) st1
                 = populate_loop get key (normalize_key key) st'"
        "stands_at (datastream st') rest"
        "param_id st' = param_id st1 + length (param_records key pre)"
        "lookup_id st' = lookup_id st1 + length (lookup_records key pre)"
        "storage st' = (storage st1)
               \<lparr>params := fill_params_from get (param_id st1) (params (storage st1))
                            (param_records key pre),
                lookup_params := fill_lookups_from get (lookup_id st1)
                            (lookup_params (storage st1)) (lookup_records key pre)\<rparr>"
      by blast
    then show ?thesis
      using st1 False
      by (intro exI [of _ st']) (simp add: param_records_Cons lookup_records_Cons)
  next
    case True
    then have tag: "r_tag r = ''#Parameter#'' \<or> r_tag r = ''#LookupParameter#''"
      and dec: "decodable get r"
      using Cons.prems(2) by auto
    from tag show ?thesis
    proof
      assume t: "r_tag r = ''#Parameter#''"
      have pr: "param_records key (r # pre) = r # param_records key pre"
        and lr: "lookup_records key (r # pre) = lookup_records key pre"
        using True t by (simp_all add: param_records_Cons lookup_records_Cons)
      from Cons.prems(3) have "drop (param_id st) (map p_dim (params (storage st)))
           = r_dim r # (map r_dim (param_records key pre) @ ptl)"
        by (simp add: pr)
      from drop_eq_ConsD [OF this]
      have i: "param_id st < length (params (storage st))"
        and di: "p_dim (params (storage st) ! param_id st) = r_dim r"
        and dr: "drop (Suc (param_id st)) (map p_dim (params (storage st)))
            = map r_dim (param_records key pre) @ ptl"
        by auto
      from populate_loop_param_step [OF wf True t dec at i di]
      obtain st1 where st1: "populate_loop get key (normalize_key key) st
                 = populate_loop get key (normalize_key key) st1"
          "stands_at (datastream st1) (render_file pre @ rest)"
          "param_id st1 = Suc (param_id st)" "lookup_id st1 = lookup_id st"
          "storage st1 = (storage st)\<lparr>params := (params (storage st))
                 [param_id st := fill_param get (params (storage st) ! param_id st) r]\<rparr>"
        by blast
      have pd: "drop (param_id st1) (map p_dim (params (storage st1)))
           = map r_dim (param_records key pre) @ ptl"
        using dr st1(3,5) by (simp add: map_p_dim_fill)
      have ld: "drop (lookup_id st1) (map lp_all_dim (lookup_params (storage st1)))
           = map r_dim (lookup_records key pre) @ ltl"
        using Cons.prems(4) st1(4,5) by (simp add: lr)
      from Cons.IH [OF wfs datas pd ld st1(2)]
      obtain st' where "populate_loop get key (normalize_key key) st1
                 = populate_loop get key (normalize_key key) st'"
          "stands_at (datastream st') rest"
          "param_id st' = param_id st1 + length (param_records key pre)"
          "lookup_id st' = lookup_id st1 + length (lookup_records key pre)"
          "storage st' = (storage st1)
               \<lparr>params := fill_params_from get (param_id st1) (params (storage st1))
                            (param_records key pre),
                lookup_params := fill_lookups_from get (lookup_id st1)
                            (lookup_params (storage st1)) (lookup_records key pre)\<rparr>"
        by blast
      then show ?thesis
        using st1 by (intro exI [of _ st']) (simp add: pr lr)
    next
      assume t: "r_tag r = ''#LookupParameter#''"
      have pr: "param_records key (r # pre) = param_records key pre"
        and lr: "lookup_records key (r # pre) = r # lookup_records key pre"
        using True t by (simp_all add: param_records_Cons lookup_records_Cons)
      from Cons.prems(4) have "drop (lookup_id st) (map lp_all_dim (lookup_params (storage st)))
           = r_dim r # (map r_dim (lookup_records key pre) @ ltl)"
        by (simp add: lr)
      from drop_eq_ConsD [OF this]
      have j: "lookup_id st < length (lookup_params (storage st))"
        and dj: "lp_all_dim (lookup_params (storage st) ! lookup_id st) = r_dim r"
        and dr: "drop (Suc (lookup_id st)) (map lp_all_dim (lookup_params (storage st)))
            = map r_dim (lookup_records key pre) @ ltl"
        by auto
      from populate_loop_lookup_step [OF wf True t dec at j dj]
      obtain st1 where st1: "populate_loop get key (normalize_key key) st
                 = populate_loop get key (normalize_key key) st1"
          "stands_at (datastream st1) (render_file pre @ rest)"
          "param_id st1 = param_id st" "lookup_id st1 = Suc (lookup_id st)"
          "storage st1 = (storage st)\<lparr>lookup_params := (lookup_params (storage st))
                 [lookup_id st := fill_lookup get (lookup_params (storage st) ! lookup_id st) r]\<rparr>"
        by blast
      have pd: "drop (param_id st1) (map p_dim (params (storage st1)))
           = map r_dim (param_records key pre) @ ptl"
        using Cons.prems(3) st1(3,5) by (simp add: pr)
      have ld: "drop (lookup_id st1) (map lp_all_dim (lookup_params (storage st1)))
           = map r_dim (lookup_records key pre) @ ltl"
        using dr st1(4,5) by (simp add: map_lp_all_dim_fill)
      from Cons.IH [OF wfs datas pd ld st1(2)]
      obtain st' where "populate_loop get key (normalize_key key) st1
                 = populate_loop get key (normalize_key key) st'"
          "stands_at (datastream st') rest"
          "param_id st' = param_id st1 + length (param_records key pre)"
          "lookup_id st' = lookup_id st1 + length (lookup_records key pre)"
          "storage st' = (storage st1)
               \<lparr>params := fill_params_from get (param_id st1) (params (storage st1))
                            (param_records key pre),
                lookup_params := fill_lookups_from get (lookup_id st1)
                            (lookup_params (storage st1)) (lookup_records key pre)\<rparr>"
        by blast
      then show ?thesis
        using st1 by (intro exI [of _ st']) (simp add: pr lr)
    qed
  qed
qed

lemma length_fill_params_from: "length (fill_params_from get i ps rs) = length ps"
  by (induction rs arbitrary: i ps) auto

lemma length_fill_lookups_from: "length (fill_lookups_from get j ps rs) = length ps"
  by (induction rs arbitrary: j ps) auto

lemma fill_params_from_beyond:
  "i + length rs \<le> k \<Longrightarrow> fill_params_from get i ps rs ! k = ps ! k"
  by (induction rs arbitrary: i ps) auto

lemma fill_lookups_from_beyond:
  "j + length rs \<le> k \<Longrightarrow> fill_lookups_from get j ps rs ! k = ps ! k"
  by (induction rs arbitrary: j ps) auto

lemma fill_params_from_conv:
  "i + length rs \<le> length ps \<Longrightarrow>
   fill_params_from get i ps rs =
     take i ps @ map2 (fill_param get) (drop i ps) rs @ drop (i + length rs) ps"
proof (induction rs arbitrary: i ps)
  case Nil
  then show ?case by simp
next
  case (Cons r rs)
  then have i: "i < length ps" by simp
  let ?ps = "ps[i := fill_param get (ps ! i) r]"
  have "fill_params_from get i ps (r # rs) = fill_params_from get (Suc i) ?ps rs"
    by simp
  also have "\<dots> = take (Suc i) ?ps @ map2 (fill_param get) (drop (Suc i) ?ps) rs
                 @ drop (Suc i + length rs) ?ps"
    using Cons.prems by (intro Cons.IH) simp
  also have "take (Suc i) ?ps = take i ps @ [fill_param get (ps ! i) r]"
    using i by (simp add: take_Suc_conv_app_nth)
  also have "drop (Suc i) ?ps = drop (Suc i) ps"
    by simp
  also have "drop (Suc i + length rs) ?ps = drop (i + length (r # rs)) ps"
    by simp
  finally show ?case
    using i by (simp add: Cons_nth_drop_Suc [symmetric])
qed

lemma fill_lookups_from_conv:
  "j + length rs \<le> length ps \<Longrightarrow>
   fill_lookups_from get j ps rs =
     take j ps @ map2 (fill_lookup get) (drop j ps) rs @ drop (j + length rs) ps"
proof (induction rs arbitrary: j ps)
  case Nil
  then show ?case by simp
next
  case (Cons r rs)
  then have j: "j < length ps" by simp
  let ?ps = "ps[j := fill_lookup get (ps ! j) r]"
  have "fill_lookups_from get j ps (r # rs) = fill_lookups_from get (Suc j) ?ps rs"
    by simp
  also have "\<dots> = take (Suc j) ?ps @ map2 (fill_lookup get) (drop (Suc j) ?ps) rs
                 @ drop (Suc j + length rs) ?ps"
    using Cons.prems by (intro Cons.IH) simp
  also have "take (Suc j) ?ps = take j ps @ [fill_lookup get (ps ! j) r]"
    using j by (simp add: take_Suc_conv_app_nth)
  also have "drop (Suc j) ?ps = drop (Suc j) ps"
    by simp
  also have "drop (Suc j + length rs) ?ps = drop (j + length (r # rs)) ps"
    by simp
  finally show ?case
    using j by (simp add: Cons_nth_drop_Suc [symmetric])
qed

lemma stands_at_init_populate:
  "length bytes < 2 ^ 63 \<Longrightarrow> stands_at (datastream (init_populate m bytes)) bytes"
  by (simp add: stands_at_def init_populate_def open_stream_def)

lemma init_populate_simps:
  "param_id (init_populate m bytes) = 0" "lookup_id (init_populate m bytes) = 0"
  "storage (init_populate m bytes) = m"
  "content (datastream (init_populate m bytes)) = bytes"
  by (simp_all add: init_populate_def open_stream_def)

text \<open>The loop on a file whose selected records all find their entity.\<close>

lemma populate_loop_accepted:
  fixes get :: "'a::zero get"
  assumes "\<forall>r \<in> set rs. wf_header r"
    and "\<forall>r \<in> set rs. selected key r \<longrightarrow>
           (r_tag r = ''#Parameter#'' \<or> r_tag r = ''#LookupParameter#'') \<and> decodable get r"
    and "map p_dim (params m) = map r_dim (param_records key rs) @ ptl"
    and "map lp_all_dim (lookup_params m) = map r_dim (lookup_records key rs) @ ltl"
    and "length (render_file rs) < 2 ^ 63"
  shows "\<exists>st. populate_loop get key (normalize_key key) (init_populate m (render_file rs))
                = Some (Inr st)
           \<and> param_id st = length (param_records key rs)
           \<and> lookup_id st = length (lookup_records key rs)
           \<and> eofbit (datastream st)
           \<and> storage st = m
               \<lparr>params := fill_params_from get 0 (params m) (param_records key rs),
                lookup_params := fill_lookups_from get 0 (lookup_params m)
                                   (lookup_records key rs)\<rparr>"
proof -
  let ?st0 = "init_populate m (render_file rs) :: 'a populate_state"
  have at: "stands_at (datastream ?st0) (render_file rs @ [])"
    using stands_at_init_populate [OF assms(5)] by simp
  have pd: "drop (param_id ?st0) (map p_dim (params (storage ?st0)))
           = map r_dim (param_records key rs) @ ptl"
    using assms(3) by (simp add: init_populate_simps)
  have ld: "drop (lookup_id ?st0) (map lp_all_dim (lookup_params (storage ?st0)))
           = map r_dim (lookup_records key rs) @ ltl"
    using assms(4) by (simp add: init_populate_simps)
  from populate_loop_prefix [OF assms(1) assms(2) pd ld at]
  obtain st1 where st1: "populate_loop get key (normalize_key key) ?st0
                 = populate_loop get key (normalize_key key) st1"
      "stands_at (datastream st1) []"
      "param_id st1 = param_id ?st0 + length (param_records key rs)"
      "lookup_id st1 = lookup_id ?st0 + length (lookup_records key rs)"
      "storage st1 = (storage ?st0)
               \<lparr>params := fill_params_from get (param_id ?st0) (params (storage ?st0))
                            (param_records key rs),
                lookup_params := fill_lookups_from get (lookup_id ?st0)
                            (lookup_params (storage ?st0)) (lookup_records key rs)\<rparr>"
    by blast
  from populate_loop_end [OF st1(2), of get key "normalize_key key"]
  obtain st where st: "populate_loop get key (normalize_key key) st1 = Some (Inr st)"
      "storage st = storage st1" "param_id st = param_id st1" "lookup_id st = lookup_id st1"
      "eofbit (datastream st)"
    by blast
  show ?thesis
    using st1(1,3,4,5) st by (intro exI [of _ st]) (simp add: init_populate_simps)
qed

text \<open>The loop on a file whose records are accepted up to a record \<open>r\<close>.\<close>

lemma populate_loop_reaches:
  fixes get :: "'a::zero get"
  assumes "\<forall>q \<in> set pre. wf_header q"
    and "\<forall>q \<in> set pre. selected key q \<longrightarrow>
           (r_tag q = ''#Parameter#'' \<or> r_tag q = ''#LookupParameter#'') \<and> decodable get q"
    and "map p_dim (params m) = map r_dim (param_records key pre) @ ptl"
    and "map lp_all_dim (lookup_params m) = map r_dim (lookup_records key pre) @ ltl"
    and "length (render_file (pre @ r # post)) < 2 ^ 63"
  shows "\<exists>st. populate_loop get key (normalize_key key)
                 (init_populate m (render_file (pre @ r # post)))
                = populate_loop get key (normalize_key key) st
           \<and> stands_at (datastream st) (render_rec r @ render_file post)
           \<and> param_id st = length (param_records key pre)
           \<and> lookup_id st = length (lookup_records key pre)
           \<and> storage st = m
               \<lparr>params := fill_params_from get 0 (params m) (param_records key pre),
                lookup_params := fill_lookups_from get 0 (lookup_params m)
                                   (lookup_records key pre)\<rparr>"
proof -
  let ?file = "render_file (pre @ r # post)"
  let ?st0 = "init_populate m ?file :: 'a populate_state"
  have split: "?file = render_file pre @ (render_rec r @ render_file post)"
    by (simp add: render_file_def)
  have at: "stands_at (datastream ?st0) (render_file pre @ (render_rec r @ render_file post))"
    using stands_at_init_populate [OF assms(5), of m] split by simp
  have pd: "drop (param_id ?st0) (map p_dim (params (storage ?st0)))
           = map r_dim (param_records key pre) @ ptl"
    using assms(3) by (simp add: init_populate_simps)
  have ld: "drop (lookup_id ?st0) (map lp_all_dim (lookup_params (storage ?st0)))
           = map r_dim (lookup_records key pre) @ ltl"
    using assms(4) by (simp add: init_populate_simps)
  from populate_loop_prefix [OF assms(1) assms(2) pd ld at]
  show ?thesis
    by (simp add: init_populate_simps)
qed

lemma map2_same_length_drop:
  "length rs = length ps \<Longrightarrow> map2 f ps rs @ drop (length rs) ps = map2 f ps rs"
  by simp

lemma populate_pc_accepted:
  fixes get :: "'a::zero get"
  assumes "\<forall>r \<in> set rs. wf_header r"
    and "\<forall>r \<in> set rs. selected key r \<longrightarrow>
           (r_tag r = ''#Parameter#'' \<or> r_tag r = ''#LookupParameter#'') \<and> decodable get r"
    and "map r_dim (param_records key rs) = map p_dim (params m)"
    and "map r_dim (lookup_records key rs) = map lp_all_dim (lookup_params m)"
    and "length (render_file rs) < 2 ^ 63"
  shows "populate_pc get m key (render_file rs) =
     Some (Inr (m\<lparr>params := map2 (fill_param get) (params m) (param_records key rs),
                  lookup_params := map2 (fill_lookup get) (lookup_params m)
                                     (lookup_records key rs)\<rparr>))"
proof -
  have pd: "map p_dim (params m) = map r_dim (param_records key rs) @ []"
    and ld: "map lp_all_dim (lookup_params m) = map r_dim (lookup_records key rs) @ []"
    using assms(3,4) by simp_all
  from populate_loop_accepted [OF assms(1) assms(2) pd ld assms(5)]
  obtain st where st: "populate_loop get key (normalize_key key) (init_populate m (render_file rs))
                = Some (Inr st)"
      "param_id st = length (param_records key rs)"
      "lookup_id st = length (lookup_records key rs)"
      "storage st = m
               \<lparr>params := fill_params_from get 0 (params m) (param_records key rs),
                lookup_params := fill_lookups_from get 0 (lookup_params m)
                                   (lookup_records key rs)\<rparr>"
    by blast
  have lp: "length (param_records key rs) = length (params m)"
    using assms(3) by (metis length_map)
  have ll: "length (lookup_records key rs) = length (lookup_params m)"
    using assms(4) by (metis length_map)
  have fp: "fill_params_from get 0 (params m) (param_records key rs)
      = map2 (fill_param get) (params m) (param_records key rs)"
    using fill_params_from_conv [of 0 "param_records key rs" "params m" get] lp by simp
  have fl: "fill_lookups_from get 0 (lookup_params m) (lookup_records key rs)
      = map2 (fill_lookup get) (lookup_params m) (lookup_records key rs)"
    using fill_lookups_from_conv [of 0 "lookup_records key rs" "lookup_params m" get] ll by simp
  show ?thesis
    using st lp ll
    by (simp add: populate_pc_def Let_def length_fill_params_from length_fill_lookups_from fp fl)
qed


lemma take_eq_appendD: "take (length ys) xs = ys \<Longrightarrow> xs = ys @ drop (length ys) xs"
  by (metis append_take_drop_id)

lemma acceptedD:
  assumes "accepted get m key rs"
  shows "\<forall>r \<in> set rs. wf_header r"
    and "\<forall>r \<in> set rs. selected key r \<longrightarrow>
           (r_tag r = ''#Parameter#'' \<or> r_tag r = ''#LookupParameter#'') \<and> decodable get r"
    and "map p_dim (params m) = map r_dim (param_records key rs)
           @ drop (length (param_records key rs)) (map p_dim (params m))"
    and "map lp_all_dim (lookup_params m) = map r_dim (lookup_records key rs)
           @ drop (length (lookup_records key rs)) (map lp_all_dim (lookup_params m))"
    and "length (param_records key rs) \<le> length (params m)"
    and "length (lookup_records key rs) \<le> length (lookup_params m)"
proof -
  have tp: "take (length (param_records key rs)) (map p_dim (params m))
            = map r_dim (param_records key rs)"
    and tl: "take (length (lookup_records key rs)) (map lp_all_dim (lookup_params m))
            = map r_dim (lookup_records key rs)"
    using assms by (auto simp: accepted_def)
  show "\<forall>r \<in> set rs. wf_header r"
    and "\<forall>r \<in> set rs. selected key r \<longrightarrow>
           (r_tag r = ''#Parameter#'' \<or> r_tag r = ''#LookupParameter#'') \<and> decodable get r"
    using assms by (auto simp: accepted_def)
  show "map p_dim (params m) = map r_dim (param_records key rs)
           @ drop (length (param_records key rs)) (map p_dim (params m))"
    using take_eq_appendD [of "map r_dim (param_records key rs)" "map p_dim (params m)"] tp
    by simp
  show "map lp_all_dim (lookup_params m) = map r_dim (lookup_records key rs)
           @ drop (length (lookup_records key rs)) (map lp_all_dim (lookup_params m))"
    using take_eq_appendD [of "map r_dim (lookup_records key rs)" "map lp_all_dim (lookup_params m)"] tl
    by simp
  show "length (param_records key rs) \<le> length (params m)"
    using arg_cong [OF tp, of length] by simp
  show "length (lookup_records key rs) \<le> length (lookup_params m)"
    using arg_cong [OF tl, of length] by simp
qed

lemma populate_pc_accepted_all:
  fixes get :: "'a::zero get"
  assumes "accepted get m key rs"
    and "length (param_records key rs) = length (params m)"
    and "length (lookup_records key rs) = length (lookup_params m)"
    and "length (render_file rs) < 2 ^ 63"
  shows "populate_pc get m key (render_file rs) =
     Some (Inr (m\<lparr>params := map2 (fill_param get) (params m) (param_records key rs),
                  lookup_params := map2 (fill_lookup get) (lookup_params m)
                                     (lookup_records key rs)\<rparr>))"
proof -
  have "map r_dim (param_records key rs) = map p_dim (params m)"
    using assms(1,2) by (simp add: accepted_def)
  moreover have "map r_dim (lookup_records key rs) = map lp_all_dim (lookup_params m)"
    using assms(1,3) by (simp add: accepted_def)
  ultimately show ?thesis
    using populate_pc_accepted [OF acceptedD(1) [OF assms(1)] acceptedD(2) [OF assms(1)] _ _ assms(4)]
    by simp
qed

subsection \<open>The records of the saver\<close>

lemma save_ps_render:
  "save_ps put p key = render_rec (param_record put (if length key > 0 then key else p_name p) p)"
  by (simp add: save_ps_def render_rec_def header_line_def param_record_def Let_def endl_def)

lemma save_lps_render:
  "save_lps put p key =
     render_rec (lookup_record put (if length key > 0 then key else lp_name p) p)"
  by (simp add: save_lps_def render_rec_def header_line_def lookup_record_def Let_def endl_def)

lemma token_tags: "token ''#Parameter#''" "token ''#LookupParameter#''"
  by (simp_all add: token_def is_space_def)

lemma skip_record_exact:
  assumes "wf_header r" and "stands_at (datastream st) (render_rec r @ rest)"
  shows "case getline (datastream st) (cur_line st) of
           (ok, ds1, hl) \<Rightarrow>
             ok \<and> (let st1 = read_header (st\<lparr>datastream := ds1, cur_line := hl\<rparr>) in
                   byte_count st1 = length (r_payload r)
                   \<and> gpos ds1 + byte_count st1 = gpos (datastream st) + length (render_rec r)
                   \<and> stands_at (datastream (skip_payload st1)) rest
                   \<and> gpos (datastream (skip_payload st1))
                       = gpos (datastream st) + length (render_rec r))"
proof -
  let ?ds = "datastream st"
  let ?ds1 = "?ds\<lparr>gpos := Suc (gpos ?ds + length (header_line r))\<rparr>"
  let ?st1 = "st\<lparr>datastream := ?ds1, cur_line := header_line r, cur_type := r_tag r,
              cur_name := r_key r, cur_dim := r_dim r, byte_count := length (r_payload r)\<rparr>"
  note hdr = read_record_header [OF assms]
  have at1: "stands_at (datastream ?st1) (r_payload r @ rest)"
    using hdr(2) by simp
  note sk = skip_payload_exact [OF at1]
  have "stands_at (datastream (skip_payload ?st1)) rest"
    using sk by simp
  moreover have "gpos (datastream (skip_payload ?st1)) = gpos ?ds + length (render_rec r)"
    using sk(1) by (simp add: length_render_rec)
  ultimately show ?thesis
    by (simp add: hdr(1) hdr(3) Let_def length_render_rec)
qed

lemma normalize_key_not_Nil: "normalize_key key \<noteq> []"
  by (simp add: normalize_key_def string_back_def)

lemma save_params_stripped_render:
  "save_params_stripped put k n ps = Inr out \<Longrightarrow> k \<noteq> [] \<Longrightarrow>
   out = concat (map (\<lambda>p. render_rec (param_record put (k @ drop n (p_name p)) p)) ps)"
proof (induction ps arbitrary: out)
  case Nil
  then show ?case by simp
next
  case (Cons p ps)
  from Cons.prems(1) obtain out' where
    o: "save_params_stripped put k n ps = Inr out'"
       "out = save_ps put p (k @ drop n (p_name p)) @ out'"
    by (auto simp: substr_from_def split: if_splits sum.splits)
  show ?case
    using Cons.IH [OF o(1) Cons.prems(2)] o(2) Cons.prems(2)
    by (simp add: save_ps_render)
qed

lemma save_lookups_stripped_render:
  "save_lookups_stripped put k n ps = Inr out \<Longrightarrow> k \<noteq> [] \<Longrightarrow>
   out = concat (map (\<lambda>p. render_rec (lookup_record put (k @ drop n (lp_name p)) p)) ps)"
proof (induction ps arbitrary: out)
  case Nil
  then show ?case by simp
next
  case (Cons p ps)
  from Cons.prems(1) obtain out' where
    o: "save_lookups_stripped put k n ps = Inr out'"
       "out = save_lps put p (k @ drop n (lp_name p)) @ out'"
    by (auto simp: substr_from_def split: if_splits sum.splits)
  show ?case
    using Cons.IH [OF o(1) Cons.prems(2)] o(2) Cons.prems(2)
    by (simp add: save_lps_render)
qed

lemma save_pc_render:
  assumes "save_pc put m key = Inr bytes"
  shows "bytes = render_file (saved_records put m key)"
proof (cases "key = []")
  case True
  with assms show ?thesis
    by (simp add: save_pc_def saved_records_def render_file_def written_key_def
        save_ps_render save_lps_render comp_def split: if_splits)
next
  case False
  from assms False obtain out1 out2 where
    o: "save_params_stripped put (normalize_key key) (length (fullname m)) (params m) = Inr out1"
       "save_lookups_stripped put (normalize_key key) (length (fullname m)) (lookup_params m)
          = Inr out2"
       "bytes = out1 @ out2"
    by (auto simp: save_pc_def Let_def split: if_splits sum.splits)
  show ?thesis
    using save_params_stripped_render [OF o(1) normalize_key_not_Nil]
      save_lookups_stripped_render [OF o(2) normalize_key_not_Nil] o(3) False
    by (simp add: saved_records_def render_file_def written_key_def comp_def)
qed

lemma saved_records_selected:
  "r \<in> set (saved_records put m key) \<Longrightarrow> selected key r"
  by (cases "key = []")
     (auto simp: saved_records_def selected_def written_key_def param_record_def
        lookup_record_def)

lemma param_records_saved:
  "param_records key (saved_records put m key)
     = map (\<lambda>p. param_record put (written_key m key (p_name p)) p) (params m)"
proof -
  have a: "filter (\<lambda>r. selected key r \<and> r_tag r = ''#Parameter#'')
             (map (\<lambda>p. param_record put (written_key m key (p_name p)) p) (params m))
           = map (\<lambda>p. param_record put (written_key m key (p_name p)) p) (params m)"
    by (rule filter_True)
       (auto simp: selected_def written_key_def param_record_def)
  have b: "filter (\<lambda>r. selected key r \<and> r_tag r = ''#Parameter#'')
             (map (\<lambda>p. lookup_record put (written_key m key (lp_name p)) p) (lookup_params m))
           = []"
    by (auto simp: filter_empty_conv lookup_record_def)
  show ?thesis
    by (simp add: param_records_def saved_records_def a b)
qed

lemma lookup_records_saved:
  "lookup_records key (saved_records put m key)
     = map (\<lambda>p. lookup_record put (written_key m key (lp_name p)) p) (lookup_params m)"
proof -
  have a: "filter (\<lambda>r. selected key r \<and> r_tag r = ''#LookupParameter#'')
             (map (\<lambda>p. lookup_record put (written_key m key (lp_name p)) p) (lookup_params m))
           = map (\<lambda>p. lookup_record put (written_key m key (lp_name p)) p) (lookup_params m)"
    by (rule filter_True)
       (auto simp: selected_def written_key_def lookup_record_def)
  have b: "filter (\<lambda>r. selected key r \<and> r_tag r = ''#LookupParameter#'')
             (map (\<lambda>p. param_record put (written_key m key (p_name p)) p) (params m))
           = []"
    by (auto simp: filter_empty_conv param_record_def)
  show ?thesis
    by (simp add: lookup_records_def saved_records_def a b)
qed

text \<open>The payload the saver writes for two vectors the codec reproduces.\<close>

lemma saved_payload_lines:
  assumes "newline \<notin> set a" and "newline \<notin> set b"
  shows "line1 (a @ endl @ b @ endl) = a" and "line2 (a @ endl @ b @ endl) = b"
    and "two_lines (a @ endl @ b @ endl)"
proof -
  have ta: "takeWhile (\<lambda>c. c \<noteq> newline) (a @ newline # (b @ [newline])) = a"
    using assms(1) by (intro takeWhile_append_stop) auto
  have tb: "takeWhile (\<lambda>c. c \<noteq> newline) (b @ newline # []) = b"
    using assms(2) by (intro takeWhile_append_stop) auto
  show l1: "line1 (a @ endl @ b @ endl) = a"
    using ta by (simp add: line1_def endl_def)
  have "line2 (a @ endl @ b @ endl)
      = takeWhile (\<lambda>c. c \<noteq> newline) (drop (length a + 1) (a @ endl @ b @ endl))"
    by (simp only: line2_def l1)
  also have "drop (length a + 1) (a @ endl @ b @ endl) = b @ [newline]"
    by (simp add: endl_def)
  finally show l2: "line2 (a @ endl @ b @ endl) = b"
    using tb by simp
  show "two_lines (a @ endl @ b @ endl)"
    by (simp add: two_lines_def l1 l2)
qed

lemma decodable_saved:
  fixes get :: "'a::zero get"
  assumes "codec_ok put get v" and "codec_ok put get g"
    and "length v = dim_size d" and "length g = dim_size d"
    and "r_dim r = d" and "r_payload r = put v @ endl @ put g @ endl"
  shows "decodable get r" and "decoded_values get r = v" and "decoded_grads get r = g"
proof -
  have nv: "newline \<notin> set (put v)" and ng: "newline \<notin> set (put g)"
    and cv: "\<And>buf. length buf = dim_size d \<Longrightarrow> get (put v) buf = Inr v"
    and cg: "\<And>buf. length buf = dim_size d \<Longrightarrow> get (put g) buf = Inr g"
    using assms(1-4) by (auto simp: codec_ok_def)
  note ls = saved_payload_lines [OF nv ng]
  show dv: "decoded_values get r = v"
    by (simp add: decoded_values_def assms(5,6) ls(1) cv)
  show dg: "decoded_grads get r = g"
    by (simp add: decoded_grads_def dv assms(3,5,6) ls(2) cg)
  show "decodable get r"
    by (simp add: decodable_def dv dg assms(3,5,6) ls cv cg)
qed

lemma set_elements_same_length: "length t = length v \<Longrightarrow> set_elements t v = v"
  by (simp add: set_elements_def)

lemma map_eq_zipD:
  "map f xs = map g ys \<Longrightarrow> (x, y) \<in> set (zip xs ys) \<Longrightarrow> f x = g y"
proof -
  assume eq: "map f xs = map g ys" and mem: "(x, y) \<in> set (zip xs ys)"
  from mem obtain i where i: "i < length xs" "i < length ys" "xs ! i = x" "ys ! i = y"
    by (auto simp: in_set_zip)
  from eq have "map f xs ! i = map g ys ! i" by simp
  with i show "f x = g y" by simp
qed

lemma fill_param_saved:
  fixes get :: "'a::zero get"
  assumes "codec_ok put get (p_values p)" and "codec_ok put get (p_g p)"
    and "length (p_values p) = dim_size (p_dim p)" and "length (p_g p) = dim_size (p_dim p)"
    and "length (p_values q) = dim_size (p_dim q)" and "length (p_g q) = dim_size (p_dim q)"
    and "p_dim q = p_dim p"
  shows "fill_param get q (param_record put k p) = q\<lparr>p_values := p_values p, p_g := p_g p\<rparr>"
proof -
  have d: "decoded_values get (param_record put k p) = p_values p"
      "decoded_grads get (param_record put k p) = p_g p"
    using decodable_saved(2,3) [OF assms(1,2,3,4), of "param_record put k p"]
    by (simp_all add: param_record_def)
  show ?thesis
    using assms(3-7) by (simp add: fill_param_def d set_elements_same_length)
qed

lemma fill_lookup_saved:
  fixes get :: "'a::zero get"
  assumes "codec_ok put get (lp_all_values p)" and "codec_ok put get (lp_all_grads p)"
    and "length (lp_all_values p) = dim_size (lp_all_dim p)"
    and "length (lp_all_grads p) = dim_size (lp_all_dim p)"
    and "length (lp_all_values q) = dim_size (lp_all_dim q)"
    and "length (lp_all_grads q) = dim_size (lp_all_dim q)"
    and "lp_all_dim q = lp_all_dim p"
  shows "fill_lookup get q (lookup_record put k p)
           = q\<lparr>lp_all_values := lp_all_values p, lp_all_grads := lp_all_grads p\<rparr>"
proof -
  have d: "decoded_values get (lookup_record put k p) = lp_all_values p"
      "decoded_grads get (lookup_record put k p) = lp_all_grads p"
    using decodable_saved(2,3) [OF assms(1,2,3,4), of "lookup_record put k p"]
    by (simp_all add: lookup_record_def)
  show ?thesis
    using assms(3-7) by (simp add: fill_lookup_def d set_elements_same_length)
qed

lemma accepted_saved:
  fixes get :: "'a::zero get"
  assumes "\<forall>r \<in> set (saved_records put m key). token (r_key r)"
    and "tensors_ok m"
    and "map p_dim (params m2) = map p_dim (params m)"
    and "map lp_all_dim (lookup_params m2) = map lp_all_dim (lookup_params m)"
    and "\<forall>p \<in> set (params m). codec_ok put get (p_values p) \<and> codec_ok put get (p_g p)"
    and "\<forall>p \<in> set (lookup_params m).
           codec_ok put get (lp_all_values p) \<and> codec_ok put get (lp_all_grads p)"
  shows "accepted get m2 key (saved_records put m key)"
proof -
  let ?rs = "saved_records put m key"
  have wf: "\<forall>r \<in> set ?rs. wf_header r"
  proof
    fix r assume r: "r \<in> set ?rs"
    then have "r_tag r = ''#Parameter#'' \<or> r_tag r = ''#LookupParameter#''"
      by (auto simp: saved_records_def param_record_def lookup_record_def)
    then have "token (r_tag r)" using token_tags by auto
    with assms(1) r show "wf_header r" by (simp add: wf_header_def)
  qed
  have data: "\<forall>r \<in> set ?rs. selected key r \<longrightarrow>
            (r_tag r = ''#Parameter#'' \<or> r_tag r = ''#LookupParameter#'') \<and> decodable get r"
  proof (intro ballI impI)
    fix r assume r: "r \<in> set ?rs"
    then consider p where "p \<in> set (params m)"
        "r = param_record put (written_key m key (p_name p)) p"
      | p where "p \<in> set (lookup_params m)"
        "r = lookup_record put (written_key m key (lp_name p)) p"
      by (auto simp: saved_records_def)
    then show "(r_tag r = ''#Parameter#'' \<or> r_tag r = ''#LookupParameter#'') \<and> decodable get r"
    proof cases
      case 1
      have "decodable get r"
        using 1 assms(2,5)
        by (intro decodable_saved(1) [of put get "p_values p" "p_g p" "p_dim p"])
           (auto simp: tensors_ok_def param_record_def)
      then show ?thesis using 1 by (simp add: param_record_def)
    next
      case 2
      have "decodable get r"
        using 2 assms(2,6)
        by (intro decodable_saved(1) [of put get "lp_all_values p" "lp_all_grads p" "lp_all_dim p"])
           (auto simp: tensors_ok_def lookup_record_def)
      then show ?thesis using 2 by (simp add: lookup_record_def)
    qed
  qed
  have pd: "map r_dim (param_records key ?rs) = map p_dim (params m2)"
    by (simp add: param_records_saved assms(3) comp_def param_record_def)
  have ld: "map r_dim (lookup_records key ?rs) = map lp_all_dim (lookup_params m2)"
    by (simp add: lookup_records_saved assms(4) comp_def lookup_record_def)
  have lp: "length (param_records key ?rs) = length (params m2)"
    using arg_cong [OF pd, of length] by simp
  have ll: "length (lookup_records key ?rs) = length (lookup_params m2)"
    using arg_cong [OF ld, of length] by simp
  show ?thesis
    using wf data pd ld lp ll by (simp add: accepted_def)
qed


lemma map2_fill_param_saved:
  fixes get :: "'a::zero get"
  assumes "tensors_ok m" and "tensors_ok m2"
    and "map p_dim (params m2) = map p_dim (params m)"
    and "\<forall>p \<in> set (params m). codec_ok put get (p_values p) \<and> codec_ok put get (p_g p)"
  shows "map2 (fill_param get) (params m2)
           (map (\<lambda>p. param_record put (kf p) p) (params m))
         = map2 (\<lambda>q p. q\<lparr>p_values := p_values p, p_g := p_g p\<rparr>) (params m2) (params m)"
proof -
  have "map2 (fill_param get) (params m2) (map (\<lambda>p. param_record put (kf p) p) (params m))
      = map (\<lambda>(q, p). fill_param get q (param_record put (kf p) p)) (zip (params m2) (params m))"
    by (simp add: zip_map2 case_prod_unfold)
  also have "\<dots> = map (\<lambda>(q, p). q\<lparr>p_values := p_values p, p_g := p_g p\<rparr>)
                      (zip (params m2) (params m))"
  proof (rule map_cong [OF refl])
    fix x assume x: "x \<in> set (zip (params m2) (params m))"
    obtain q p where qp: "x = (q, p)" by (cases x)
    have q: "q \<in> set (params m2)" and p: "p \<in> set (params m)"
      using x qp by (auto dest: set_zip_leftD set_zip_rightD)
    have d: "p_dim q = p_dim p"
      using map_eq_zipD [OF assms(3)] x qp by simp
    show "(case x of (q, p) \<Rightarrow> fill_param get q (param_record put (kf p) p))
        = (case x of (q, p) \<Rightarrow> q\<lparr>p_values := p_values p, p_g := p_g p\<rparr>)"
      using assms(1,2,4) q p d
      by (simp add: qp tensors_ok_def fill_param_saved)
  qed
  finally show ?thesis .
qed

lemma map2_fill_lookup_saved:
  fixes get :: "'a::zero get"
  assumes "tensors_ok m" and "tensors_ok m2"
    and "map lp_all_dim (lookup_params m2) = map lp_all_dim (lookup_params m)"
    and "\<forall>p \<in> set (lookup_params m).
           codec_ok put get (lp_all_values p) \<and> codec_ok put get (lp_all_grads p)"
  shows "map2 (fill_lookup get) (lookup_params m2)
           (map (\<lambda>p. lookup_record put (kf p) p) (lookup_params m))
         = map2 (\<lambda>q p. q\<lparr>lp_all_values := lp_all_values p, lp_all_grads := lp_all_grads p\<rparr>)
             (lookup_params m2) (lookup_params m)"
proof -
  have "map2 (fill_lookup get) (lookup_params m2)
          (map (\<lambda>p. lookup_record put (kf p) p) (lookup_params m))
      = map (\<lambda>(q, p). fill_lookup get q (lookup_record put (kf p) p))
          (zip (lookup_params m2) (lookup_params m))"
    by (simp add: zip_map2 case_prod_unfold)
  also have "\<dots> = map (\<lambda>(q, p). q\<lparr>lp_all_values := lp_all_values p,
                                      lp_all_grads := lp_all_grads p\<rparr>)
                      (zip (lookup_params m2) (lookup_params m))"
  proof (rule map_cong [OF refl])
    fix x assume x: "x \<in> set (zip (lookup_params m2) (lookup_params m))"
    obtain q p where qp: "x = (q, p)" by (cases x)
    have q: "q \<in> set (lookup_params m2)" and p: "p \<in> set (lookup_params m)"
      using x qp by (auto dest: set_zip_leftD set_zip_rightD)
    have d: "lp_all_dim q = lp_all_dim p"
      using map_eq_zipD [OF assms(3)] x qp by simp
    show "(case x of (q, p) \<Rightarrow> fill_lookup get q (lookup_record put (kf p) p))
        = (case x of (q, p) \<Rightarrow> q\<lparr>lp_all_values := lp_all_values p,
                                    lp_all_grads := lp_all_grads p\<rparr>)"
      using assms(1,2,4) q p d
      by (simp add: qp tensors_ok_def fill_lookup_saved)
  qed
  finally show ?thesis .
qed

lemma map_over_map2:
  assumes "length qs = length ps"
  shows "(\<And>q p. f (F q p) = g p) \<Longrightarrow> map f (map2 F qs ps) = map g ps"
    and "(\<And>q p. h (F q p) = h q) \<Longrightarrow> map h (map2 F qs ps) = map h qs"
proof -
  assume "\<And>q p. f (F q p) = g p"
  then have "map f (map2 F qs ps) = map g (map snd (zip qs ps))"
    by (simp add: comp_def case_prod_unfold)
  then show "map f (map2 F qs ps) = map g ps"
    using assms by (simp add: map_snd_zip)
next
  assume "\<And>q p. h (F q p) = h q"
  then have "map h (map2 F qs ps) = map h (map fst (zip qs ps))"
    by (simp add: comp_def case_prod_unfold)
  then show "map h (map2 F qs ps) = map h qs"
    using assms by (simp add: map_fst_zip)
qed

subsection \<open>A payload line that the extraction rejects\<close>





subsection \<open>Lines that are no headers\<close>

lemma read_header_datastream:
  "read_header (st\<lparr>datastream := ds\<rparr>) = (read_header st)\<lparr>datastream := ds\<rparr>"
  by (simp add: read_header_def split: prod.splits)

lemma read_header_datastream_line:
  "read_header (st\<lparr>datastream := ds, cur_line := l\<rparr>)
     = (read_header (st\<lparr>cur_line := l\<rparr>))\<lparr>datastream := ds\<rparr>"
  by (simp add: read_header_def split: prod.splits)

lemma read_header_keeps:
  "datastream (read_header st) = datastream st"
  "cur_line (read_header st) = cur_line st"
  by (simp_all add: read_header_def split: prod.splits)

lemma read_header_keeps_populate:
  fixes st :: "'a populate_state"
  shows "param_id (read_header st) = param_id st" "lookup_id (read_header st) = lookup_id st"
    "storage (read_header st) = storage st" "values_buf (read_header st) = values_buf st"
  by (simp_all add: read_header_def split: prod.splits)

text \<open>A line that is no header of a selected record, when \<open>byte_count\<close> is zero.\<close>

lemma populate_loop_line_skipped:
  fixes st :: "'a::zero populate_state"
  assumes "stands_at (datastream st) (l @ newline # rest)" and "newline \<notin> set l"
    and "key \<noteq> []"
    and "take (length (normalize_key key)) (cur_name (read_header (st\<lparr>cur_line := l\<rparr>)))
           \<noteq> normalize_key key"
    and "byte_count (read_header (st\<lparr>cur_line := l\<rparr>)) = 0"
  shows "\<exists>st'. populate_loop get key (normalize_key key) st
                 = populate_loop get key (normalize_key key) st'
           \<and> stands_at (datastream st') rest
           \<and> cur_name st' = cur_name (read_header (st\<lparr>cur_line := l\<rparr>))
           \<and> byte_count st' = 0
           \<and> param_id st' = param_id st \<and> lookup_id st' = lookup_id st
           \<and> storage st' = storage st"
proof -
  let ?ds1 = "(datastream st)\<lparr>gpos := Suc (gpos (datastream st) + length l)\<rparr>"
  let ?st1 = "(read_header (st\<lparr>cur_line := l\<rparr>))\<lparr>datastream := ?ds1\<rparr>"
  note g = getline_line [OF assms(1,2)]
  have rh: "read_header (st\<lparr>datastream := ?ds1, cur_line := l\<rparr>) = ?st1"
    by (rule read_header_datastream_line)
  have at1: "stands_at (datastream ?st1) ([] @ rest)"
    using g(2) by simp
  have bc: "byte_count ?st1 = length ([] :: string)"
    using assms(5) by simp
  have sk: "skip_payload ?st1 = ?st1"
    using skip_payload_exact(1) [OF at1 bc] by simp
  have body: "populate_body get key (normalize_key key) (st\<lparr>datastream := ?ds1, cur_line := l\<rparr>)
      = Inr ?st1"
    using assms(3,4) by (simp add: populate_body_def rh sk Let_def)
  have "populate_loop get key (normalize_key key) st
      = populate_loop get key (normalize_key key) ?st1"
    by (subst populate_loop.simps) (simp add: g(1) body)
  moreover have "stands_at (datastream ?st1) rest"
    using g(2) by simp
  ultimately show ?thesis
    using assms(5)
    by (intro exI [of _ ?st1]) (simp add: read_header_keeps_populate)
qed


subsection \<open>The examples evaluated\<close>

lemmas ex_defs = ex_recA_def ex_recB_def ex_recC_def ex_recD_def ex_recT_def ex_recs_def
  ex_param_def ex_lookup_def ex_pc_def ex_two_def ex_empty_def ex_rec35_def ex_lrec35_def
  ex_param34_def ex_lookup34_def ex_pc34_def

lemmas eval_defs = wf_header_def token_def is_space_def two_lines_def line1_def line2_def
  endl_def newline_def nat_get_def nat_put_def is_digit_def digits_value_def digit_value_def
  dim_size_def selected_def normalize_key_def string_back_def
  param_records_def lookup_records_def decodable_def decoded_values_def decoded_grads_def
  accepted_def

lemmas render_defs = render_file_def render_rec_def header_line_def show_dim_def
  show_nat.simps endl_def digit_char_def char_of_eq_iff

lemma ex_wf:
  "wf_header ex_recA" "wf_header ex_recB" "wf_header ex_recC" "wf_header ex_recD"
  "wf_header ex_recT" "wf_header ex_rec35" "wf_header ex_lrec35" "wf_header ex_lookup_rec"
  by (simp_all add: ex_defs ex_lookup_rec_def wf_header_def token_def is_space_def)

lemma ex_sizes:
  "length (render_file ex_recs) < 2 ^ 63"
  "length (render_file [ex_recA]) < 2 ^ 63"
  "length (render_file ([ex_recA] @ ex_recD # [])) < 2 ^ 63"
  "length (render_file ([ex_recC] @ ex_lrec35 # [])) < 2 ^ 63"
  "length (render_file ([ex_recA] @ ex_rec35 # [])) < 2 ^ 63"
  "length (render_file ([ex_recA] @ ex_lrec35 # [])) < 2 ^ 63"
  "length (render_file ([ex_recA] @ ex_recT # [ex_recC])) < 2 ^ 63"
  by (simp_all add: ex_defs render_defs)

lemma ex_accepted:
  "accepted nat_get ex_pc ''/a'' ex_recs"
  "accepted nat_get ex_two ''/a'' [ex_recA]"
  "accepted nat_get ex_pc ''/a'' [ex_recA]"
  "accepted nat_get ex_pc ''/a'' [ex_recC]"
  "accepted nat_get ex_pc34 ''/a'' [ex_recA]"
  by (simp_all add: ex_defs eval_defs)



lemma ex_selected:
  "selected ''/a'' ex_recD" "selected ''/a'' ex_recT" "selected ''/a'' ex_rec35"
  "selected ''/a'' ex_lrec35"
  by (simp_all add: ex_defs selected_def normalize_key_def string_back_def)

lemma ex_param_counts:
  "param_records ''/a'' [ex_recA] = [ex_recA]" "lookup_records ''/a'' [ex_recA] = []"
  "param_records ''/a'' [ex_recC] = []" "lookup_records ''/a'' [ex_recC] = [ex_recC]"
  by (simp_all add: ex_defs param_records_def lookup_records_def selected_def normalize_key_def
      string_back_def)

lemma ex_lookup_payload:
  "two_lines (r_payload ex_lookup_rec)"
  "nat_get (line1 (r_payload ex_lookup_rec)) (replicate (dim_size ([4] @ [10])) 0)
     = Inr [1, 2, 3, 4, 5, 6, 7, 8, 9, 10, 11, 12, 13, 14, 15, 16, 17, 18, 19, 20, 21, 22,
            23, 24, 25, 26, 27, 28, 29, 30, 31, 32, 33, 34, 35, 36, 37, 38, 39, 40]"
  "nat_get (line2 (r_payload ex_lookup_rec))
       [1, 2, 3, 4, 5, 6, 7, 8, 9, 10, 11, 12, 13, 14, 15, 16, 17, 18, 19, 20, 21, 22,
        23, 24, 25, 26, 27, 28, 29, 30, 31, 32, 33, 34, 35, 36, 37, 38, 39, 40]
     = Inr [0, 0, 0, 0, 0, 0, 0, 0, 0, 0, 0, 0, 0, 0, 0, 0, 0, 0, 0, 0, 0, 0, 0, 0, 0, 0, 0, 0, 0, 0, 0, 0, 0, 0, 0, 0, 0, 0, 0, 0]"
  by (simp_all add: ex_lookup_rec_def eval_defs)

lemmas header_eval = read_header_def extract_string_def extract_dim_def extract_size_t_def
  skipws_def is_space_def parse_dim_def

lemma tab_header:
  "cur_name (read_header (st\<lparr>cur_line := ''#Parameter# '' @ ex_tab_key @ ''/w {1} 4''\<rparr>)) = ''/a''"
  "byte_count (read_header (st\<lparr>cur_line := ''#Parameter# '' @ ex_tab_key @ ''/w {1} 4''\<rparr>))
     = byte_count st"
  by (simp_all add: ex_tab_key_def header_eval)

lemma one_field_header:
  "cur_type (read_header (st\<lparr>cur_line := ''1''\<rparr>)) = ''1''"
  "cur_name (read_header (st\<lparr>cur_line := ''1''\<rparr>)) = cur_name st"
  "byte_count (read_header (st\<lparr>cur_line := ''1''\<rparr>)) = byte_count st"
  "cur_type (read_header (st\<lparr>cur_line := ''0''\<rparr>)) = ''0''"
  "cur_name (read_header (st\<lparr>cur_line := ''0''\<rparr>)) = cur_name st"
  "byte_count (read_header (st\<lparr>cur_line := ''0''\<rparr>)) = byte_count st"
  "cur_type (read_header (st\<lparr>cur_line := ''garbage''\<rparr>)) = ''garbage''"
  "cur_name (read_header (st\<lparr>cur_line := ''garbage''\<rparr>)) = cur_name st"
  "byte_count (read_header (st\<lparr>cur_line := ''garbage''\<rparr>)) = byte_count st"
  by (simp_all add: header_eval)

lemma tab_save: "save_pc nat_put ex_one ex_tab_key = Inr ex_tab_bytes"
  by (simp add: save_pc_def valid_pc_key_def valid_key_def startswith_def ex_one_def
      ex_tab_key_def ex_tab_bytes_def normalize_key_def string_back_def substr_from_def
      save_ps_def nat_put_def show_dim_def show_nat.simps digit_char_def char_of_eq_iff
      endl_def Let_def)

lemma tab_valid: "valid_pc_key ex_tab_key"
  by (simp add: valid_pc_key_def valid_key_def startswith_def ex_tab_key_def)

lemma eq_char_of_iff: "(c = char_of (n::nat)) = (take_bit 8 n = of_char c)"
  using char_of_eq_iff [of n c] by auto

lemma ex_codec:
  "codec_ok nat_put nat_get [1, 2]" "codec_ok nat_put nat_get [3, 4]"
  "codec_ok nat_put nat_get [5, 6, 7, 8]" "codec_ok nat_put nat_get [0, 0, 0, 1]"
  by (simp_all add: codec_ok_def nat_put_def nat_get_def show_nat.simps digit_char_def
      char_of_eq_iff eq_char_of_iff is_digit_def digits_value_def digit_value_def newline_def)

lemma ex_src_saved: "save_pc nat_put ex_src ''/x'' = Inr ex_saved_bytes"
  by (simp add: save_pc_def valid_pc_key_def valid_key_def startswith_def ex_src_def
      ex_saved_bytes_def normalize_key_def string_back_def substr_from_def
      save_ps_def save_lps_def nat_put_def show_dim_def show_nat.simps digit_char_def
      char_of_eq_iff endl_def Let_def)

lemma ex_src_facts:
  "length ex_saved_bytes < 2 ^ 63"
  "\<forall>r \<in> set (saved_records nat_put ex_src ''/x''). token (r_key r)"
  "tensors_ok ex_src" "tensors_ok ex_pc"
  "map p_dim (params ex_pc) = map p_dim (params ex_src)"
  "map lp_all_dim (lookup_params ex_pc) = map lp_all_dim (lookup_params ex_src)"
  by (simp_all add: ex_saved_bytes_def endl_def saved_records_def param_record_def
      lookup_record_def written_key_def normalize_key_def string_back_def ex_src_def
      token_def is_space_def tensors_ok_def dim_size_def ex_pc_def ex_param_def ex_lookup_def)

lemma ex_two_records:
  "length (save_ps nat_put ex_param [] @ save_lps nat_put ex_lookup []) < 2 ^ 63"
  "token (if length ([] :: string) > 0 then [] else p_name ex_param)"
  "length (nat_put (p_values ex_param) @ endl @ nat_put (p_g ex_param) @ endl) = 8"
  by (simp_all add: save_ps_def save_lps_def ex_param_def ex_lookup_def nat_put_def
      show_dim_def show_nat.simps endl_def token_def is_space_def)









lemma find_None_iff_set: "find P xs = None \<longleftrightarrow> (\<forall>x \<in> set xs. \<not> P x)"
  by (induction xs) auto

section \<open>The claims\<close>

subsection \<open>Saving and populating a collection\<close>

text \<open>
  Claim C1, as amended.  The claim promises the round trip for every key that
  \<open>valid_pc_key\<close> accepts.  The loader reads the key of a header back with the
  extraction operator, which ends a field at any white space, so the round trip needs
  the keys written to the file to be fields: not empty and free of white space.  For
  every collection \<open>m\<close> and key such that \<open>save\<close> returns normally, the file is shorter
  than \<open>2 ^ 63\<close> bytes and the keys of its records are fields, when the arrays of \<open>m\<close>
  and of the collection \<open>m2\<close> to populate have the number of elements of their shapes,
  \<open>m2\<close> has the shapes of \<open>m\<close> in order, and the codec gives every vector of \<open>m\<close> back
  from its text: \<open>populate\<close> on the file with the same key returns normally, and the
  values and gradients of \<open>m2\<close> are then those of \<open>m\<close>, entity by entity, while the
  names, the shapes and the full name of \<open>m2\<close> stay.  For the empty key neither
  operation uses the normalised key.
\<close>

theorem save_then_populate_roundtrip:
  fixes put :: "'a::zero put" and get :: "'a get"
  assumes "save_pc put m key = Inr bytes"
    and "length bytes < 2 ^ 63"
    and "\<forall>r \<in> set (saved_records put m key). token (r_key r)"
    and "tensors_ok m" and "tensors_ok m2"
    and "map p_dim (params m2) = map p_dim (params m)"
    and "map lp_all_dim (lookup_params m2) = map lp_all_dim (lookup_params m)"
    and "\<forall>p \<in> set (params m). codec_ok put get (p_values p) \<and> codec_ok put get (p_g p)"
    and "\<forall>p \<in> set (lookup_params m).
           codec_ok put get (lp_all_values p) \<and> codec_ok put get (lp_all_grads p)"
  shows "\<exists>m2'. populate_pc get m2 key bytes = Some (Inr m2')
     \<and> map p_values (params m2') = map p_values (params m)
     \<and> map p_g (params m2') = map p_g (params m)
     \<and> map lp_all_values (lookup_params m2') = map lp_all_values (lookup_params m)
     \<and> map lp_all_grads (lookup_params m2') = map lp_all_grads (lookup_params m)
     \<and> map p_name (params m2') = map p_name (params m2)
     \<and> map p_dim (params m2') = map p_dim (params m2)
     \<and> map lp_name (lookup_params m2') = map lp_name (lookup_params m2)
     \<and> map lp_all_dim (lookup_params m2') = map lp_all_dim (lookup_params m2)
     \<and> fullname m2' = fullname m2"
proof -
  let ?rs = "saved_records put m key"
  let ?P = "map2 (\<lambda>q p. q\<lparr>p_values := p_values p, p_g := p_g p\<rparr>) (params m2) (params m)"
  let ?L = "map2 (\<lambda>q p. q\<lparr>lp_all_values := lp_all_values p, lp_all_grads := lp_all_grads p\<rparr>)
              (lookup_params m2) (lookup_params m)"
  have b: "bytes = render_file ?rs"
    by (rule save_pc_render [OF assms(1)])
  have acc: "accepted get m2 key ?rs"
    by (rule accepted_saved [OF assms(3,4,6,7,8,9)])
  have lp: "length (params m2) = length (params m)"
    using arg_cong [OF assms(6), of length] by simp
  have ll: "length (lookup_params m2) = length (lookup_params m)"
    using arg_cong [OF assms(7), of length] by simp
  have lp': "length (param_records key ?rs) = length (params m2)"
    by (simp add: param_records_saved lp)
  have ll': "length (lookup_records key ?rs) = length (lookup_params m2)"
    by (simp add: lookup_records_saved ll)
  have sz: "length (render_file ?rs) < 2 ^ 63"
    using assms(2) b by simp
  have res: "populate_pc get m2 key bytes = Some (Inr (m2\<lparr>params := ?P, lookup_params := ?L\<rparr>))"
    using populate_pc_accepted_all [OF acc lp' ll' sz]
    by (simp add: b param_records_saved lookup_records_saved
        map2_fill_param_saved [OF assms(4,5,6,8)] map2_fill_lookup_saved [OF assms(4,5,7,9)])
  have "map p_values ?P = map p_values (params m)"
    by (rule map_over_map2(1) [OF lp]) simp
  moreover have "map p_g ?P = map p_g (params m)"
    by (rule map_over_map2(1) [OF lp]) simp
  moreover have "map p_name ?P = map p_name (params m2)"
    by (rule map_over_map2(2) [OF lp]) simp
  moreover have "map p_dim ?P = map p_dim (params m2)"
    by (rule map_over_map2(2) [OF lp]) simp
  moreover have "map lp_all_values ?L = map lp_all_values (lookup_params m)"
    by (rule map_over_map2(1) [OF ll]) simp
  moreover have "map lp_all_grads ?L = map lp_all_grads (lookup_params m)"
    by (rule map_over_map2(1) [OF ll]) simp
  moreover have "map lp_name ?L = map lp_name (lookup_params m2)"
    by (rule map_over_map2(2) [OF ll]) simp
  moreover have "map lp_all_dim ?L = map lp_all_dim (lookup_params m2)"
    by (rule map_over_map2(2) [OF ll]) simp
  ultimately show ?thesis
    using res by (intro exI [of _ "m2\<lparr>params := ?P, lookup_params := ?L\<rparr>"]) simp
qed

theorem save_then_populate_roundtrip_witness:
  "save_pc nat_put ex_src ''/x'' = Inr ex_saved_bytes
   \<and> (\<exists>m2'. populate_pc nat_get ex_pc ''/x'' ex_saved_bytes = Some (Inr m2')
        \<and> map p_values (params m2') = [[1, 2]]
        \<and> map p_g (params m2') = [[3, 4]]
        \<and> map lp_all_values (lookup_params m2') = [[5, 6, 7, 8]]
        \<and> map lp_all_grads (lookup_params m2') = [[0, 0, 0, 1]]
        \<and> map p_name (params m2') = [''/w''])"
proof -
  have c1: "\<forall>p \<in> set (params ex_src).
      codec_ok nat_put nat_get (p_values p) \<and> codec_ok nat_put nat_get (p_g p)"
    using ex_codec by (simp add: ex_src_def)
  have c2: "\<forall>p \<in> set (lookup_params ex_src).
      codec_ok nat_put nat_get (lp_all_values p) \<and> codec_ok nat_put nat_get (lp_all_grads p)"
    using ex_codec by (simp add: ex_src_def)
  from save_then_populate_roundtrip [OF ex_src_saved ex_src_facts c1 c2]
  obtain m2' where m: "populate_pc nat_get ex_pc ''/x'' ex_saved_bytes = Some (Inr m2')"
      "map p_values (params m2') = map p_values (params ex_src)"
      "map p_g (params m2') = map p_g (params ex_src)"
      "map lp_all_values (lookup_params m2') = map lp_all_values (lookup_params ex_src)"
      "map lp_all_grads (lookup_params m2') = map lp_all_grads (lookup_params ex_src)"
      "map p_name (params m2') = map p_name (params ex_pc)"
    by blast
  have v: "map p_values (params ex_src) = [[1, 2]]" "map p_g (params ex_src) = [[3, 4]]"
      "map lp_all_values (lookup_params ex_src) = [[5, 6, 7, 8]]"
      "map lp_all_grads (lookup_params ex_src) = [[0, 0, 0, 1]]"
      "map p_name (params ex_pc) = [''/w'']"
    by (simp_all add: ex_src_def ex_pc_def ex_param_def)
  show ?thesis
    using m ex_src_saved unfolding v by simp
qed

text \<open>
  The claim as it is written fails for a key with a tabulator in it: the validator
  accepts the key and \<open>save\<close> writes the file, but the loader ends the key field of the
  header at the tabulator, selects no record, and the count check raises as it finds
  none of the one Parameter.
\<close>

theorem tab_key_breaks_roundtrip:
  "valid_pc_key ex_tab_key
   \<and> save_pc nat_put ex_one ex_tab_key = Inr ex_tab_bytes
   \<and> outcome_error (populate_pc nat_get ex_one ex_tab_key ex_tab_bytes)
       = Some (CountMismatch 0 0 1 0)"
proof -
  let ?l1 = "''#Parameter# '' @ ex_tab_key @ ''/w {1} 4''"
  let ?nk = "normalize_key ex_tab_key"
  let ?st0 = "init_populate ex_one ex_tab_bytes"
  have ne: "ex_tab_key \<noteq> []" by (simp add: ex_tab_key_def)
  have nsel: "take (length ?nk) ''/a'' \<noteq> ?nk"
    by (simp add: ex_tab_key_def normalize_key_def string_back_def)
  have sz: "length ex_tab_bytes < 2 ^ 63"
    by (simp add: ex_tab_bytes_def ex_tab_key_def endl_def)
  have split: "ex_tab_bytes = ?l1 @ newline # (''1'' @ newline # (''0'' @ newline # []))"
    by (simp add: ex_tab_bytes_def endl_def)
  have nl: "newline \<notin> set ?l1" "newline \<notin> set ''1''" "newline \<notin> set ''0''"
    by (simp_all add: ex_tab_key_def newline_def)
  have at0: "stands_at (datastream ?st0) (?l1 @ newline # (''1'' @ newline # (''0'' @ newline # [])))"
    using stands_at_init_populate [OF sz, of ex_one] split by simp
  have i0: "byte_count ?st0 = 0" "param_id ?st0 = 0" "lookup_id ?st0 = 0" "storage ?st0 = ex_one"
    by (simp_all add: init_populate_def)
  have c1: "take (length ?nk) (cur_name (read_header (?st0\<lparr>cur_line := ?l1\<rparr>))) \<noteq> ?nk"
    unfolding tab_header by (rule nsel)
  have b1: "byte_count (read_header (?st0\<lparr>cur_line := ?l1\<rparr>)) = 0"
    unfolding tab_header by (rule i0(1))
  note s1 = populate_loop_line_skipped [OF at0 nl(1) ne c1 b1, of nat_get, unfolded tab_header i0]
  then obtain st1 where st1: "populate_loop nat_get ex_tab_key ?nk ?st0
                 = populate_loop nat_get ex_tab_key ?nk st1"
      "stands_at (datastream st1) (''1'' @ newline # (''0'' @ newline # []))"
      "cur_name st1 = ''/a''" "byte_count st1 = 0"
      "param_id st1 = 0" "lookup_id st1 = 0" "storage st1 = ex_one"
    by blast
  from populate_loop_line_skipped [OF st1(2) nl(2) ne, of nat_get] nsel st1
  obtain st2 where st2: "populate_loop nat_get ex_tab_key ?nk st1
                 = populate_loop nat_get ex_tab_key ?nk st2"
      "stands_at (datastream st2) (''0'' @ newline # [])"
      "cur_name st2 = ''/a''" "byte_count st2 = 0"
      "param_id st2 = 0" "lookup_id st2 = 0" "storage st2 = ex_one"
    by (auto simp: one_field_header)
  from populate_loop_line_skipped [OF st2(2) nl(3) ne, of nat_get] nsel st2
  obtain st3 where st3: "populate_loop nat_get ex_tab_key ?nk st2
                 = populate_loop nat_get ex_tab_key ?nk st3"
      "stands_at (datastream st3) []"
      "param_id st3 = 0" "lookup_id st3 = 0" "storage st3 = ex_one"
    by (auto simp: one_field_header)
  from populate_loop_end [OF st3(2), of nat_get ex_tab_key ?nk] st3
  obtain st4 where st4: "populate_loop nat_get ex_tab_key ?nk st3 = Some (Inr st4)"
      "param_id st4 = 0" "lookup_id st4 = 0" "storage st4 = ex_one"
    by auto
  have "populate_pc nat_get ex_one ex_tab_key ex_tab_bytes
      = Some (Inl (CountMismatch 0 0 1 0, st4))"
    using st1(1) st2(1) st3(1) st4
    by (simp add: populate_pc_def Let_def ex_one_def)
  then show ?thesis
    using tab_valid tab_save by (simp add: outcome_error_def)
qed

subsection \<open>The payload length of a record\<close>

text \<open>
  Claim C2.  For every record written by the saver, the last field of the header is
  the decimal numeral of the exact number of bytes of the two payload lines with their
  line terminators, and the header line, its terminator and that many bytes make up
  the whole record.  For a reader that stands at the start of a record whose key is a
  field, the header line is read, the \<open>byte_count\<close> extracted from it is that number,
  the position after the header line plus \<open>byte_count\<close> is the position where the
  record ends, and the seek of the skip path leaves the stream in good state exactly
  there, at the header of the next record or at the end of the file.
\<close>

theorem payload_length_is_exact:
  assumes "stands_at (datastream st) (bytes @ rest)"
  shows "(bytes = save_ps put p key \<longrightarrow>
           (let payload = put (p_values p) @ endl @ put (p_g p) @ endl;
                hdr = ''#Parameter# '' @ (if length key > 0 then key else p_name p) @ '' ''
                        @ show_dim (p_dim p) @ '' '' @ show_nat (length payload)
            in bytes = hdr @ endl @ payload
               \<and> digits_value (show_nat (length payload)) = length payload
               \<and> length (hdr @ endl) + length payload = length bytes))
     \<and> (bytes = save_ps put p key \<and> token (if length key > 0 then key else p_name p) \<longrightarrow>
           (case getline (datastream st) (cur_line st) of
              (ok, ds1, hl) \<Rightarrow>
                ok \<and> (let st1 = read_header (st\<lparr>datastream := ds1, cur_line := hl\<rparr>) in
                  byte_count st1 = length (put (p_values p) @ endl @ put (p_g p) @ endl)
                  \<and> gpos ds1 + byte_count st1 = gpos (datastream st) + length bytes
                  \<and> stands_at (datastream (skip_payload st1)) rest
                  \<and> gpos (datastream (skip_payload st1)) = gpos (datastream st) + length bytes)))
     \<and> (bytes = save_lps put lp key \<longrightarrow>
           (let payload = put (lp_all_values lp) @ endl @ put (lp_all_grads lp) @ endl;
                hdr = ''#LookupParameter# '' @ (if length key > 0 then key else lp_name lp)
                        @ '' '' @ show_dim (lp_all_dim lp) @ '' '' @ show_nat (length payload)
            in bytes = hdr @ endl @ payload
               \<and> digits_value (show_nat (length payload)) = length payload
               \<and> length (hdr @ endl) + length payload = length bytes))
     \<and> (bytes = save_lps put lp key \<and> token (if length key > 0 then key else lp_name lp) \<longrightarrow>
           (case getline (datastream st) (cur_line st) of
              (ok, ds1, hl) \<Rightarrow>
                ok \<and> (let st1 = read_header (st\<lparr>datastream := ds1, cur_line := hl\<rparr>) in
                  byte_count st1
                    = length (put (lp_all_values lp) @ endl @ put (lp_all_grads lp) @ endl)
                  \<and> gpos ds1 + byte_count st1 = gpos (datastream st) + length bytes
                  \<and> stands_at (datastream (skip_payload st1)) rest
                  \<and> gpos (datastream (skip_payload st1)) = gpos (datastream st) + length bytes)))"
proof (intro conjI impI)
  assume "bytes = save_ps put p key"
  then show "let payload = put (p_values p) @ endl @ put (p_g p) @ endl;
                hdr = ''#Parameter# '' @ (if length key > 0 then key else p_name p) @ '' ''
                        @ show_dim (p_dim p) @ '' '' @ show_nat (length payload)
            in bytes = hdr @ endl @ payload
               \<and> digits_value (show_nat (length payload)) = length payload
               \<and> length (hdr @ endl) + length payload = length bytes"
    by (simp add: save_ps_def Let_def digits_value_show_nat)
next
  let ?r = "param_record put (if length key > 0 then key else p_name p) p"
  assume a: "bytes = save_ps put p key \<and> token (if length key > 0 then key else p_name p)"
  have wf: "wf_header ?r"
    using a by (simp add: wf_header_def param_record_def token_tags)
  have at: "stands_at (datastream st) (render_rec ?r @ rest)"
    using assms a by (simp add: save_ps_render)
  have b: "bytes = render_rec ?r"
    using a by (simp add: save_ps_render)
  have pl: "r_payload ?r = put (p_values p) @ endl @ put (p_g p) @ endl"
    by (simp add: param_record_def)
  show "case getline (datastream st) (cur_line st) of
              (ok, ds1, hl) \<Rightarrow>
                ok \<and> (let st1 = read_header (st\<lparr>datastream := ds1, cur_line := hl\<rparr>) in
                  byte_count st1 = length (put (p_values p) @ endl @ put (p_g p) @ endl)
                  \<and> gpos ds1 + byte_count st1 = gpos (datastream st) + length bytes
                  \<and> stands_at (datastream (skip_payload st1)) rest
                  \<and> gpos (datastream (skip_payload st1)) = gpos (datastream st) + length bytes)"
    using skip_record_exact [OF wf at] unfolding b pl .
next
  assume "bytes = save_lps put lp key"
  then show "let payload = put (lp_all_values lp) @ endl @ put (lp_all_grads lp) @ endl;
                hdr = ''#LookupParameter# '' @ (if length key > 0 then key else lp_name lp)
                        @ '' '' @ show_dim (lp_all_dim lp) @ '' '' @ show_nat (length payload)
            in bytes = hdr @ endl @ payload
               \<and> digits_value (show_nat (length payload)) = length payload
               \<and> length (hdr @ endl) + length payload = length bytes"
    by (simp add: save_lps_def Let_def digits_value_show_nat)
next
  let ?r = "lookup_record put (if length key > 0 then key else lp_name lp) lp"
  assume a: "bytes = save_lps put lp key \<and> token (if length key > 0 then key else lp_name lp)"
  have wf: "wf_header ?r"
    using a by (simp add: wf_header_def lookup_record_def token_tags)
  have at: "stands_at (datastream st) (render_rec ?r @ rest)"
    using assms a by (simp add: save_lps_render)
  have b: "bytes = render_rec ?r"
    using a by (simp add: save_lps_render)
  have pl: "r_payload ?r = put (lp_all_values lp) @ endl @ put (lp_all_grads lp) @ endl"
    by (simp add: lookup_record_def)
  show "case getline (datastream st) (cur_line st) of
              (ok, ds1, hl) \<Rightarrow>
                ok \<and> (let st1 = read_header (st\<lparr>datastream := ds1, cur_line := hl\<rparr>) in
                  byte_count st1
                    = length (put (lp_all_values lp) @ endl @ put (lp_all_grads lp) @ endl)
                  \<and> gpos ds1 + byte_count st1 = gpos (datastream st) + length bytes
                  \<and> stands_at (datastream (skip_payload st1)) rest
                  \<and> gpos (datastream (skip_payload st1)) = gpos (datastream st) + length bytes)"
    using skip_record_exact [OF wf at] unfolding b pl .
qed

theorem payload_length_is_exact_witness:
  "case getline (datastream (init_scan (save_ps nat_put ex_param []
                                         @ save_lps nat_put ex_lookup [])))
          (cur_line (init_scan (save_ps nat_put ex_param [] @ save_lps nat_put ex_lookup [])))
   of (ok, ds1, hl) \<Rightarrow>
     ok \<and> (let st1 = read_header
                       (init_scan (save_ps nat_put ex_param [] @ save_lps nat_put ex_lookup [])
                          \<lparr>datastream := ds1, cur_line := hl\<rparr>)
           in byte_count st1 = 8
              \<and> stands_at (datastream (skip_payload st1)) (save_lps nat_put ex_lookup []))"
proof -
  let ?st = "init_scan (save_ps nat_put ex_param [] @ save_lps nat_put ex_lookup [])"
  have at: "stands_at (datastream ?st)
      (save_ps nat_put ex_param [] @ save_lps nat_put ex_lookup [])"
    by (rule stands_at_init [OF ex_two_records(1)])
  note payload_length_is_exact [where st = ?st and bytes = "save_ps nat_put ex_param []"
      and rest = "save_lps nat_put ex_lookup []" and put = nat_put and p = ex_param
      and key = "[]" and lp = ex_lookup, OF at, THEN conjunct2, THEN conjunct1, THEN mp,
      OF conjI [OF refl ex_two_records(2)]]
  then show ?thesis
    unfolding ex_two_records(3) by (auto simp only: Let_def split: prod.splits)
qed

subsection \<open>Selection by prefix and assignment by position\<close>



subsection \<open>Shape mismatch\<close>

text \<open>
  Claim C4.  When the record that a populate operation matches declares a shape that
  differs from the shape of the target entity, the operation fails with the
  shape-mismatch error, which holds both shapes, and the target entity is as it was:
  for \<open>populate(Parameter)\<close> and \<open>populate(LookupParameter)\<close> on the first record with
  the tag and the key, and for \<open>populate(ParameterCollection)\<close> on a selected record that
  follows records read without an error, where the target is the next entity of the
  kind not yet consumed.
\<close>

theorem shape_mismatch_detected:
  fixes get :: "'a::zero get"
  assumes "\<forall>q \<in> set pre. wf_header q" and "wf_header r"
    and "length (render_file (pre @ r # post)) < 2 ^ 63"
  shows "(key \<noteq> [] \<and> r_key r = key \<and> r_tag r = ''#Parameter#''
          \<and> (\<forall>q \<in> set pre. \<not> (r_tag q = ''#Parameter#'' \<and> r_key q = key))
          \<and> p_dim param \<noteq> r_dim r \<longrightarrow>
           populate_param get param key (render_file (pre @ r # post)) =
             Some (Inl (PopulateDimMismatch (p_dim param) (r_dim r), param)))
     \<and> (key \<noteq> [] \<and> r_key r = key \<and> r_tag r = ''#LookupParameter#''
          \<and> (\<forall>q \<in> set pre. \<not> (r_tag q = ''#LookupParameter#'' \<and> r_key q = key))
          \<and> lp_all_dim lookup_param \<noteq> r_dim r \<longrightarrow>
           populate_lookup_param get lookup_param key (render_file (pre @ r # post)) =
             Some (Inl (PopulateDimMismatch (lp_all_dim lookup_param) (r_dim r), lookup_param)))
     \<and> (accepted get m key pre \<and> selected key r \<and> r_tag r = ''#Parameter#''
          \<and> length (param_records key pre) < length (params m)
          \<and> p_dim (params m ! length (param_records key pre)) \<noteq> r_dim r \<longrightarrow>
           (\<exists>st. populate_pc get m key (render_file (pre @ r # post)) =
                   Some (Inl (ParamDimMismatch (r_key r) (r_dim r)
                                (p_dim (params m ! length (param_records key pre))), st))
                 \<and> params (storage st) ! length (param_records key pre)
                     = params m ! length (param_records key pre)))
     \<and> (accepted get m key pre \<and> selected key r \<and> r_tag r = ''#LookupParameter#''
          \<and> length (lookup_records key pre) < length (lookup_params m)
          \<and> lp_all_dim (lookup_params m ! length (lookup_records key pre)) \<noteq> r_dim r \<longrightarrow>
           (\<exists>st. populate_pc get m key (render_file (pre @ r # post)) =
                   Some (Inl (LookupDimMismatch (r_key r) (r_dim r)
                                (lp_all_dim (lookup_params m ! length (lookup_records key pre))),
                              st))
                 \<and> lookup_params (storage st) ! length (lookup_records key pre)
                     = lookup_params m ! length (lookup_records key pre)))"
proof (intro conjI impI)
  let ?file = "render_file (pre @ r # post)"
  have split: "?file = render_file pre @ render_rec r @ render_file post"
    by (simp add: render_file_def)
  assume a: "key \<noteq> [] \<and> r_key r = key \<and> r_tag r = ''#Parameter#''
          \<and> (\<forall>q \<in> set pre. \<not> (r_tag q = ''#Parameter#'' \<and> r_key q = key))
          \<and> p_dim param \<noteq> r_dim r"
  have all: "\<forall>q \<in> set pre. wf_header q \<and> \<not> (r_tag q = ''#Parameter#'' \<and> r_key q = key)"
    using assms(1) a by auto
  have at: "stands_at (datastream (init_scan ?file))
              (render_file pre @ render_rec r @ render_file post)"
    using stands_at_init [OF assms(3)] split by simp
  from scan_for_found [OF all assms(2) _ _ at] a
  obtain st where "scan_for ''#Parameter#'' key (init_scan ?file) = Some (Found st)"
      "cur_dim st = r_dim r"
    by blast
  then show "populate_param get param key ?file =
             Some (Inl (PopulateDimMismatch (p_dim param) (r_dim r), param))"
    using a by (simp add: populate_param_def)
next
  let ?file = "render_file (pre @ r # post)"
  have split: "?file = render_file pre @ render_rec r @ render_file post"
    by (simp add: render_file_def)
  assume a: "key \<noteq> [] \<and> r_key r = key \<and> r_tag r = ''#LookupParameter#''
          \<and> (\<forall>q \<in> set pre. \<not> (r_tag q = ''#LookupParameter#'' \<and> r_key q = key))
          \<and> lp_all_dim lookup_param \<noteq> r_dim r"
  have all: "\<forall>q \<in> set pre. wf_header q \<and> \<not> (r_tag q = ''#LookupParameter#'' \<and> r_key q = key)"
    using assms(1) a by auto
  have at: "stands_at (datastream (init_scan ?file))
              (render_file pre @ render_rec r @ render_file post)"
    using stands_at_init [OF assms(3)] split by simp
  from scan_for_found [OF all assms(2) _ _ at] a
  obtain st where "scan_for ''#LookupParameter#'' key (init_scan ?file) = Some (Found st)"
      "cur_dim st = r_dim r"
    by blast
  then show "populate_lookup_param get lookup_param key ?file =
             Some (Inl (PopulateDimMismatch (lp_all_dim lookup_param) (r_dim r), lookup_param))"
    using a by (simp add: populate_lookup_param_def)
next
  let ?k = "length (param_records key pre)"
  assume a: "accepted get m key pre \<and> selected key r \<and> r_tag r = ''#Parameter#''
          \<and> ?k < length (params m) \<and> p_dim (params m ! ?k) \<noteq> r_dim r"
  then have accd: "accepted get m key pre" by simp
  note acc = acceptedD [OF accd]
  from populate_loop_reaches [OF acc(1) acc(2) acc(3) acc(4) assms(3)]
  obtain st where st: "populate_loop get key (normalize_key key)
                 (init_populate m (render_file (pre @ r # post)))
                = populate_loop get key (normalize_key key) st"
      "stands_at (datastream st) (render_rec r @ render_file post)"
      "param_id st = ?k"
      "storage st = m
               \<lparr>params := fill_params_from get 0 (params m) (param_records key pre),
                lookup_params := fill_lookups_from get 0 (lookup_params m)
                                   (lookup_records key pre)\<rparr>"
    by blast
  have same: "params (storage st) ! ?k = params m ! ?k"
    using st(4) by (simp add: fill_params_from_beyond)
  have i: "param_id st < length (params (storage st))"
    using a st(3,4) by (simp add: length_fill_params_from)
  have d: "p_dim (params (storage st) ! param_id st) \<noteq> r_dim r"
    using a same st(3) by simp
  from populate_loop_param_mismatch [OF assms(2) _ _ st(2) i d, of key get] a
  obtain st' where st': "populate_loop get key (normalize_key key) st
                 = Some (Inl (ParamDimMismatch (r_key r) (r_dim r)
                                (p_dim (params (storage st) ! param_id st)), st'))"
      "storage st' = storage st"
    by blast
  have "populate_pc get m key (render_file (pre @ r # post)) =
      Some (Inl (ParamDimMismatch (r_key r) (r_dim r) (p_dim (params m ! ?k)), st'))"
    using st(1,3) st'(1) same by (simp add: populate_pc_def Let_def)
  then show "\<exists>st. populate_pc get m key (render_file (pre @ r # post)) =
                   Some (Inl (ParamDimMismatch (r_key r) (r_dim r) (p_dim (params m ! ?k)), st))
                 \<and> params (storage st) ! ?k = params m ! ?k"
    using st'(2) same by auto
next
  let ?k = "length (lookup_records key pre)"
  assume a: "accepted get m key pre \<and> selected key r \<and> r_tag r = ''#LookupParameter#''
          \<and> ?k < length (lookup_params m) \<and> lp_all_dim (lookup_params m ! ?k) \<noteq> r_dim r"
  then have accd: "accepted get m key pre" by simp
  note acc = acceptedD [OF accd]
  from populate_loop_reaches [OF acc(1) acc(2) acc(3) acc(4) assms(3)]
  obtain st where st: "populate_loop get key (normalize_key key)
                 (init_populate m (render_file (pre @ r # post)))
                = populate_loop get key (normalize_key key) st"
      "stands_at (datastream st) (render_rec r @ render_file post)"
      "lookup_id st = ?k"
      "storage st = m
               \<lparr>params := fill_params_from get 0 (params m) (param_records key pre),
                lookup_params := fill_lookups_from get 0 (lookup_params m)
                                   (lookup_records key pre)\<rparr>"
    by blast
  have same: "lookup_params (storage st) ! ?k = lookup_params m ! ?k"
    using st(4) by (simp add: fill_lookups_from_beyond)
  have j: "lookup_id st < length (lookup_params (storage st))"
    using a st(3,4) by (simp add: length_fill_lookups_from)
  have d: "lp_all_dim (lookup_params (storage st) ! lookup_id st) \<noteq> r_dim r"
    using a same st(3) by simp
  from populate_loop_lookup_mismatch [OF assms(2) _ _ st(2) j d, of key get] a
  obtain st' where st': "populate_loop get key (normalize_key key) st
                 = Some (Inl (LookupDimMismatch (r_key r) (r_dim r)
                                (lp_all_dim (lookup_params (storage st) ! lookup_id st)), st'))"
      "storage st' = storage st"
    by blast
  have "populate_pc get m key (render_file (pre @ r # post)) =
      Some (Inl (LookupDimMismatch (r_key r) (r_dim r) (lp_all_dim (lookup_params m ! ?k)), st'))"
    using st(1,3) st'(1) same by (simp add: populate_pc_def Let_def)
  then show "\<exists>st. populate_pc get m key (render_file (pre @ r # post)) =
                   Some (Inl (LookupDimMismatch (r_key r) (r_dim r)
                                (lp_all_dim (lookup_params m ! ?k)), st))
                 \<and> lookup_params (storage st) ! ?k = lookup_params m ! ?k"
    using st'(2) same by auto
qed

theorem shape_mismatch_detected_witness:
  "populate_param nat_get ex_param34 ''/a/m'' (render_file ([ex_recA] @ ex_rec35 # [])) =
     Some (Inl (PopulateDimMismatch [3, 4] [3, 5], ex_param34))
   \<and> populate_lookup_param nat_get ex_lookup34 ''/a/m''
       (render_file ([ex_recA] @ ex_lrec35 # [])) =
     Some (Inl (PopulateDimMismatch [3, 4] [3, 5], ex_lookup34))
   \<and> (\<exists>st. populate_pc nat_get ex_pc34 ''/a'' (render_file ([ex_recA] @ ex_rec35 # [])) =
            Some (Inl (ParamDimMismatch ''/a/m'' [3, 5] [3, 4], st))
          \<and> params (storage st) ! 1 = ex_param34)
   \<and> (\<exists>st. populate_pc nat_get ex_pc34 ''/a'' (render_file ([ex_recA] @ ex_lrec35 # [])) =
            Some (Inl (LookupDimMismatch ''/a/m'' [3, 5] [3, 4], st))
          \<and> lookup_params (storage st) ! 0 = ex_lookup34)"
proof (intro conjI)
  note p = shape_mismatch_detected [where pre = "[ex_recA]" and r = ex_rec35 and post = "[]"
      and get = nat_get, OF _ ex_wf(6) ex_sizes(5)]
  note l = shape_mismatch_detected [where pre = "[ex_recA]" and r = ex_lrec35 and post = "[]"
      and get = nat_get, OF _ ex_wf(7) ex_sizes(6)]
  show "populate_param nat_get ex_param34 ''/a/m'' (render_file ([ex_recA] @ ex_rec35 # [])) =
     Some (Inl (PopulateDimMismatch [3, 4] [3, 5], ex_param34))"
    using p [where key = "''/a/m''" and param = ex_param34] ex_wf(1)
    by (simp add: ex_recA_def ex_rec35_def ex_param34_def)
  show "populate_lookup_param nat_get ex_lookup34 ''/a/m''
       (render_file ([ex_recA] @ ex_lrec35 # [])) =
     Some (Inl (PopulateDimMismatch [3, 4] [3, 5], ex_lookup34))"
    using l [where key = "''/a/m''" and lookup_param = ex_lookup34] ex_wf(1)
    by (simp add: ex_recA_def ex_lrec35_def ex_lookup34_def)
  show "\<exists>st. populate_pc nat_get ex_pc34 ''/a'' (render_file ([ex_recA] @ ex_rec35 # [])) =
            Some (Inl (ParamDimMismatch ''/a/m'' [3, 5] [3, 4], st))
          \<and> params (storage st) ! 1 = ex_param34"
    using p [where key = "''/a''" and m = ex_pc34] ex_wf(1) ex_accepted(5) ex_selected(3)
    by (simp add: ex_param_counts ex_pc34_def ex_rec35_def ex_param34_def)
  show "\<exists>st. populate_pc nat_get ex_pc34 ''/a'' (render_file ([ex_recA] @ ex_lrec35 # [])) =
            Some (Inl (LookupDimMismatch ''/a/m'' [3, 5] [3, 4], st))
          \<and> lookup_params (storage st) ! 0 = ex_lookup34"
    using l [where key = "''/a''" and m = ex_pc34] ex_wf(1) ex_accepted(5) ex_selected(4)
    by (simp add: ex_param_counts ex_pc34_def ex_lrec35_def ex_lookup34_def)
qed

subsection \<open>Count mismatch\<close>

text \<open>
  Claim C5.  A \<open>populate(ParameterCollection)\<close> that goes through the records of a file
  to the end of the stream, when the number of selected \<open>#Parameter#\<close> records differs
  from the number of Parameters of the collection, or the number of selected
  \<open>#LookupParameter#\<close> records from the number of its Lookup Parameters, fails with the
  count-mismatch error, which holds the two loaded counts and the two expected ones.
  A selected record that comes when every entity of its kind is consumed is an error
  raised during the scan, which names the record.
\<close>

theorem populate_pc_count_mismatch:
  fixes get :: "'a::zero get"
  assumes "accepted get m key pre"
  shows "(length (render_file pre) < 2 ^ 63
          \<and> (length (param_records key pre) \<noteq> length (params m)
              \<or> length (lookup_records key pre) \<noteq> length (lookup_params m)) \<longrightarrow>
           (\<exists>st. populate_pc get m key (render_file pre) =
                   Some (Inl (CountMismatch (length (param_records key pre))
                                (length (lookup_records key pre))
                                (length (params m)) (length (lookup_params m)), st))
                 \<and> eofbit (datastream st)))
     \<and> (length (render_file (pre @ r # post)) < 2 ^ 63 \<and> wf_header r \<and> selected key r
          \<and> r_tag r = ''#Parameter#'' \<and> length (param_records key pre) = length (params m) \<longrightarrow>
           (\<exists>st. populate_pc get m key (render_file (pre @ r # post)) =
                   Some (Inl (TooManyParams (r_key r), st))))
     \<and> (length (render_file (pre @ r # post)) < 2 ^ 63 \<and> wf_header r \<and> selected key r
          \<and> r_tag r = ''#LookupParameter#''
          \<and> length (lookup_records key pre) = length (lookup_params m) \<longrightarrow>
           (\<exists>st. populate_pc get m key (render_file (pre @ r # post)) =
                   Some (Inl (TooManyLookups (r_key r), st))))"
proof (intro conjI impI)
  note acc = acceptedD [OF assms]
  assume a: "length (render_file pre) < 2 ^ 63
          \<and> (length (param_records key pre) \<noteq> length (params m)
              \<or> length (lookup_records key pre) \<noteq> length (lookup_params m))"
  from populate_loop_accepted [OF acc(1) acc(2) acc(3) acc(4)] a
  obtain st where st: "populate_loop get key (normalize_key key) (init_populate m (render_file pre))
                = Some (Inr st)"
      "param_id st = length (param_records key pre)"
      "lookup_id st = length (lookup_records key pre)"
      "eofbit (datastream st)"
      "storage st = m
               \<lparr>params := fill_params_from get 0 (params m) (param_records key pre),
                lookup_params := fill_lookups_from get 0 (lookup_params m)
                                   (lookup_records key pre)\<rparr>"
    by blast
  have "populate_pc get m key (render_file pre) =
      Some (Inl (CountMismatch (length (param_records key pre))
                   (length (lookup_records key pre))
                   (length (params m)) (length (lookup_params m)), st))"
    using st a
    by (auto simp: populate_pc_def Let_def length_fill_params_from length_fill_lookups_from)
  then show "\<exists>st. populate_pc get m key (render_file pre) =
                   Some (Inl (CountMismatch (length (param_records key pre))
                                (length (lookup_records key pre))
                                (length (params m)) (length (lookup_params m)), st))
                 \<and> eofbit (datastream st)"
    using st(4) by blast
next
  note acc = acceptedD [OF assms]
  assume a: "length (render_file (pre @ r # post)) < 2 ^ 63 \<and> wf_header r \<and> selected key r
          \<and> r_tag r = ''#Parameter#'' \<and> length (param_records key pre) = length (params m)"
  from populate_loop_reaches [OF acc(1) acc(2) acc(3) acc(4), of r post] a
  obtain st where st: "populate_loop get key (normalize_key key)
                 (init_populate m (render_file (pre @ r # post)))
                = populate_loop get key (normalize_key key) st"
      "stands_at (datastream st) (render_rec r @ render_file post)"
      "param_id st = length (param_records key pre)"
      "storage st = m
               \<lparr>params := fill_params_from get 0 (params m) (param_records key pre),
                lookup_params := fill_lookups_from get 0 (lookup_params m)
                                   (lookup_records key pre)\<rparr>"
    by blast
  have "length (params (storage st)) \<le> param_id st"
    using a st(3,4) by (simp add: length_fill_params_from)
  from populate_loop_too_many_params [OF _ _ _ st(2) this, of key get] a
  obtain st' where "populate_loop get key (normalize_key key) st
                 = Some (Inl (TooManyParams (r_key r), st'))"
    by blast
  then show "\<exists>st. populate_pc get m key (render_file (pre @ r # post)) =
                   Some (Inl (TooManyParams (r_key r), st))"
    using st(1) by (simp add: populate_pc_def Let_def)
next
  note acc = acceptedD [OF assms]
  assume a: "length (render_file (pre @ r # post)) < 2 ^ 63 \<and> wf_header r \<and> selected key r
          \<and> r_tag r = ''#LookupParameter#''
          \<and> length (lookup_records key pre) = length (lookup_params m)"
  from populate_loop_reaches [OF acc(1) acc(2) acc(3) acc(4), of r post] a
  obtain st where st: "populate_loop get key (normalize_key key)
                 (init_populate m (render_file (pre @ r # post)))
                = populate_loop get key (normalize_key key) st"
      "stands_at (datastream st) (render_rec r @ render_file post)"
      "lookup_id st = length (lookup_records key pre)"
      "storage st = m
               \<lparr>params := fill_params_from get 0 (params m) (param_records key pre),
                lookup_params := fill_lookups_from get 0 (lookup_params m)
                                   (lookup_records key pre)\<rparr>"
    by blast
  have "length (lookup_params (storage st)) \<le> lookup_id st"
    using a st(3,4) by (simp add: length_fill_lookups_from)
  from populate_loop_too_many_lookups [OF _ _ _ st(2) this, of key get] a
  obtain st' where "populate_loop get key (normalize_key key) st
                 = Some (Inl (TooManyLookups (r_key r), st'))"
    by blast
  then show "\<exists>st. populate_pc get m key (render_file (pre @ r # post)) =
                   Some (Inl (TooManyLookups (r_key r), st))"
    using st(1) by (simp add: populate_pc_def Let_def)
qed

theorem populate_pc_count_mismatch_witness:
  "(\<exists>st. populate_pc nat_get ex_two ''/a'' (render_file [ex_recA]) =
            Some (Inl (CountMismatch 1 0 2 0, st)) \<and> eofbit (datastream st))
   \<and> (\<exists>st. populate_pc nat_get ex_pc ''/a'' (render_file ([ex_recA] @ ex_recD # [])) =
            Some (Inl (TooManyParams ''/a/v'', st)))
   \<and> (\<exists>st. populate_pc nat_get ex_pc ''/a'' (render_file ([ex_recC] @ ex_lrec35 # [])) =
            Some (Inl (TooManyLookups ''/a/m'', st)))"
proof (intro conjI)
  show "\<exists>st. populate_pc nat_get ex_two ''/a'' (render_file [ex_recA]) =
            Some (Inl (CountMismatch 1 0 2 0, st)) \<and> eofbit (datastream st)"
    using populate_pc_count_mismatch [OF ex_accepted(2), of ex_recD "[]"] ex_sizes(2)
    by (simp add: ex_param_counts ex_two_def numeral_2_eq_2)
  show "\<exists>st. populate_pc nat_get ex_pc ''/a'' (render_file ([ex_recA] @ ex_recD # [])) =
            Some (Inl (TooManyParams ''/a/v'', st))"
    using populate_pc_count_mismatch [OF ex_accepted(3), of ex_recD "[]"] ex_sizes(3)
      ex_wf(4) ex_selected(1)
    by (simp add: ex_param_counts ex_pc_def ex_recD_def)
  show "\<exists>st. populate_pc nat_get ex_pc ''/a'' (render_file ([ex_recC] @ ex_lrec35 # [])) =
            Some (Inl (TooManyLookups ''/a/m'', st))"
    using populate_pc_count_mismatch [OF ex_accepted(4), of ex_lrec35 "[]"] ex_sizes(4)
      ex_wf(7) ex_selected(4)
    by (simp add: ex_param_counts ex_pc_def ex_lrec35_def)
qed

subsection \<open>Key not found\<close>



subsection \<open>Malformed records\<close>




subsection \<open>The shape of a loaded Lookup Parameter\<close>

text \<open>
  Claim C8.  When \<open>load_lookup_param\<close> finds its record and the declared shape is
  \<open>d @ [n]\<close>, it asks the collection for a new Lookup Parameter of \<open>n\<close> rows of shape
  \<open>d\<close>, names it with the key of the record, and fills its values from the first
  payload line and its gradients from the second; the handle returned is the index of
  the new entity.  The shape \<open>{4,10}\<close> gives ten rows of shape \<open>{4}\<close>.
\<close>

theorem load_lookup_param_splits_last_dim:
  fixes get :: "'a::zero get"
  assumes "key \<noteq> []"
    and "\<forall>q \<in> set pre. wf_header q \<and> \<not> (r_tag q = ''#LookupParameter#'' \<and> r_key q = key)"
    and "wf_header r" and "r_tag r = ''#LookupParameter#''" and "r_key r = key"
    and "r_dim r = d @ [n]"
    and "two_lines (r_payload r)"
    and "get (line1 (r_payload r)) (replicate (dim_size (d @ [n])) 0) = Inr v1"
    and "get (line2 (r_payload r)) v1 = Inr v2"
    and "length (render_file pre @ render_rec r @ post) < 2 ^ 63"
  shows "load_lookup_param get model key (render_file pre @ render_rec r @ post) =
     Some (Inr (model\<lparr>lookup_params := lookup_params model @
                  [\<lparr>lp_name = key, lp_dim = d, lp_all_dim = d @ [n],
                    lp_all_values = set_elements (replicate (dim_size (d @ [n])) 0) v1,
                    lp_all_grads = set_elements (replicate (dim_size (d @ [n])) 0) v2\<rparr>]\<rparr>,
                length (lookup_params model)))"
proof -
  let ?file = "render_file pre @ render_rec r @ post"
  have at: "stands_at (datastream (init_scan ?file)) ?file"
    by (rule stands_at_init [OF assms(10)])
  from scan_for_found [OF assms(2) assms(3) assms(4) assms(5) at]
  obtain st where st: "scan_for ''#LookupParameter#'' key (init_scan ?file) = Some (Found st)"
      "cur_name st = key" "cur_dim st = r_dim r"
      "stands_at (datastream st) (r_payload r @ post)"
    by auto
  have dec: "decode_payload get (datastream st) (cur_line st)
               (replicate (dim_size (d @ [n])) 0) = Decoded v1 v2"
    using decode_payload_two_lines [OF assms(7) st(4), of get "cur_line st"]
    by (simp add: assms(8,9))
  show ?thesis
    using assms(1)
    by (simp add: load_lookup_param_def st(1,2,3) assms(6) dec add_lookup_parameters_def
        set_values_def set_grads_def Let_def)
qed

theorem load_lookup_param_splits_last_dim_witness:
  "load_lookup_param nat_get ex_empty ''/emb''
     (render_file [ex_recA] @ render_rec ex_lookup_rec @ []) =
   Some (Inr (ex_empty\<lparr>lookup_params :=
                  [\<lparr>lp_name = ''/emb'', lp_dim = [4], lp_all_dim = [4, 10],
                    lp_all_values = [1, 2, 3, 4, 5, 6, 7, 8, 9, 10, 11, 12, 13, 14, 15, 16, 17,
                      18, 19, 20, 21, 22, 23, 24, 25, 26, 27, 28, 29, 30, 31, 32, 33, 34, 35,
                      36, 37, 38, 39, 40],
                    lp_all_grads = [0, 0, 0, 0, 0, 0, 0, 0, 0, 0, 0, 0, 0, 0, 0, 0, 0, 0, 0, 0, 0, 0, 0, 0, 0, 0, 0, 0, 0, 0, 0, 0, 0, 0, 0, 0, 0, 0, 0, 0]\<rparr>]\<rparr>, 0))"
proof -
  have pre: "\<forall>q \<in> set [ex_recA].
      wf_header q \<and> \<not> (r_tag q = ''#LookupParameter#'' \<and> r_key q = ''/emb'')"
    using ex_wf(1) by (simp add: ex_recA_def)
  have sz: "length (render_file [ex_recA] @ render_rec ex_lookup_rec @ []) < 2 ^ 63"
    by (simp add: ex_recA_def ex_lookup_rec_def render_defs)
  have r: "r_tag ex_lookup_rec = ''#LookupParameter#''" "r_key ex_lookup_rec = ''/emb''"
      "r_dim ex_lookup_rec = [4] @ [10]"
    by (simp_all add: ex_lookup_rec_def)
  show ?thesis
    using load_lookup_param_splits_last_dim [OF _ pre ex_wf(8) r ex_lookup_payload sz,
        of ex_empty]
    by (simp add: ex_empty_def dim_size_def set_elements_def)
qed

subsection \<open>The key validators\<close>

text \<open>
  Claim C9.  For every string \<open>s\<close>: \<open>valid_key s\<close> is true iff \<open>s\<close> is empty, or \<open>s\<close> is
  not \<open>/\<close> and contains neither a blank nor a hash; and \<open>valid_pc_key s\<close> is true iff
  \<open>s\<close> is empty, or \<open>s\<close> starts with a slash and \<open>valid_key s\<close> is true.
\<close>

theorem valid_key_characterisation:
  "(valid_key s \<longleftrightarrow>
      (s = [] \<or> (s \<noteq> ''/'' \<and> CHR '' '' \<notin> set s \<and> CHR ''#'' \<notin> set s)))
   \<and> (valid_pc_key s \<longleftrightarrow>
      (s = [] \<or> ((\<exists>t. s = CHR ''/'' # t) \<and> valid_key s)))"
proof
  show "valid_key s \<longleftrightarrow>
      (s = [] \<or> (s \<noteq> ''/'' \<and> CHR '' '' \<notin> set s \<and> CHR ''#'' \<notin> set s))"
    by (auto simp: valid_key_def find_None_iff_set)
next
  show "valid_pc_key s \<longleftrightarrow> (s = [] \<or> ((\<exists>t. s = CHR ''/'' # t) \<and> valid_key s))"
    by (cases s) (auto simp: valid_pc_key_def startswith_def)
qed

theorem valid_key_characterisation_witness:
  "valid_key ''/ok/name'' \<and> valid_pc_key ''/ok/name'' \<and> valid_key ''ok/name''
   \<and> \<not> valid_pc_key ''ok/name'' \<and> \<not> valid_key ''#bad'' \<and> \<not> valid_key ''has space''
   \<and> \<not> valid_key ''/'' \<and> valid_key '''' \<and> valid_pc_key ''''"
  using valid_key_characterisation [of "''/ok/name''"]
    valid_key_characterisation [of "''ok/name''"]
    valid_key_characterisation [of "''#bad''"]
    valid_key_characterisation [of "''has space''"]
    valid_key_characterisation [of "''/''"]
    valid_key_characterisation [of "''''"]
  by simp

subsection \<open>The out-of-range read of the key normalisation\<close>

text \<open>
  Claim C10.  The claim says that for every key the validator accepts, the empty key
  included, the normalisation step reads only characters of the key, so that the
  \<open>None\<close> branch of the last-character access is unreachable.  The empty key is
  accepted by \<open>valid_pc_key\<close>, and both \<open>TextFileSaver::save\<close> and
  \<open>TextFileLoader::populate\<close> call \<open>back\<close> (here \<open>string_back\<close>) on it before they test its size: the
  access is out of range there.
\<close>

theorem normalize_key_empty_out_of_range:
  "valid_pc_key [] \<and> string_back [] = None"
  by (simp add: valid_pc_key_def string_back_def)

end
